theory Spec2Isabelle
  imports Complex_Main "HOL-Library.Log_Nat" "HOL-Library.List_Lexorder" "HOL-Library.Char_ord"
begin

section \<open>JavaScript numbers\<close>

text \<open>
  The timeline code of \<^verbatim>\<open>BagService.loadFile\<close> computes with JavaScript numbers, which are
  IEEE 754 binary64 values.  Every such value is a rational, so a number is a \<^typ>\<open>rat\<close>,
  and the one operation of the code that rounds, the addition in \<^verbatim>\<open>t += 33.33\<close>, rounds its
  exact sum to 53 significant bits, ties to even.  \<open>double_round\<close> is that rounding for
  arguments \<open>x\<close> with \<open>1 \<le> x < 2 ^ 1024\<close> (no subnormals, no overflow); the sums formed by
  the frame loop are at least 33.
\<close>

definition pow2 :: "int \<Rightarrow> rat" where
  "pow2 e = (if 0 \<le> e then 2 ^ nat e else 1 / 2 ^ nat (- e))"

definition round_even :: "rat \<Rightarrow> int" where
  "round_even m =
     (let f = \<lfloor>m\<rfloor>; r = m - rat_of_int f
      in if r < 1 / 2 then f
         else if 1 / 2 < r then f + 1
         else if even f then f else f + 1)"

definition double_round :: "rat \<Rightarrow> rat" where
  "double_round x =
     (let e = bitlen \<lfloor>x\<rfloor> - 53
      in rat_of_int (round_even (x / pow2 e)) * pow2 e)"

text \<open>The literal \<^verbatim>\<open>33.33\<close>: the double nearest to 3333/100, which is 2345390243441541 / 2^46.\<close>

definition FRAME_STEP :: rat where
  "FRAME_STEP = 2345390243441541 / 70368744177664"

definition js_add :: "rat \<Rightarrow> rat \<Rightarrow> rat" where
  "js_add a b = double_round (a + b)"

text \<open>\<^verbatim>\<open>Math.round\<close>: the nearest integer, a tie going towards plus infinity.\<close>

definition Math_round :: "rat \<Rightarrow> int" where
  "Math_round x = \<lfloor>x + 1 / 2\<rfloor>"

section \<open>Data model\<close>

record Time =
  sec :: nat
  nsec :: nat

text \<open>
  A deserialised message is an object of type \<^verbatim>\<open>any\<close> in the source; the record has the
  fields the code reads, an absent field being \<open>None\<close>.
\<close>

record RosMessage =
  name :: "string list option"
  position :: "rat list option"
  velocity :: "rat list option"
  effort :: "rat list option"
  format :: "string option"
  encoding :: "string option"
  width :: nat
  height :: nat
  data :: "nat list"

text \<open>What the bag reader's message iterator yields.\<close>

record BagMessage =
  msg_topic :: string
  msg_timestamp :: Time
  message :: RosMessage

record Connection =
  conn_topic :: string
  conn_type :: string

text \<open>
  The bag file as the reader presents it: whether \<^verbatim>\<open>open()\<close> resolves, the connections in
  their order, whether the full scan of the messages completes, and the messages in the
  order the scan yields them.
\<close>

record BagFile =
  opens :: bool
  connections :: "Connection list"
  readable :: bool
  messages :: "BagMessage list"

record LightMessage =
  timestamp :: int
  originalTime :: Time
  topic :: string
  light_data :: "RosMessage option"

text \<open>
  An image entry of a frame is a URL.  An object URL is represented by the blob it
  designates (its MIME type and bytes), a data URL by its text.
\<close>

datatype ImageUrl = ObjectUrl string "nat list" | DataUrl string

record ParsedFrame =
  frame_timestamp :: int
  index :: int
  images :: "string \<rightharpoonup> ImageUrl"
  jointStateMap :: "string \<rightharpoonup> RosMessage"

record TopicMeta =
  msgType :: string
  title :: string

type_synonym FrameImageMap = "(string \<times> Time) list"

record BagService =
  bag :: "BagFile option"
  cv :: bool
  timestamps :: "int list"
  topicMetadata :: "string \<rightharpoonup> TopicMeta"
  historicalJointData :: "nat \<rightharpoonup> (string \<rightharpoonup> RosMessage)"
  imageTopics :: "string list"
  jointTopics :: "string list"
  frameImageIndex :: "nat \<rightharpoonup> FrameImageMap"
  frameCache :: "(int \<times> ParsedFrame) list"

text \<open>A freshly constructed service.\<close>

definition new_BagService :: BagService where
  "new_BagService =
     \<lparr>bag = None, cv = False, timestamps = [], topicMetadata = Map.empty,
      historicalJointData = Map.empty, imageTopics = [], jointTopics = [],
      frameImageIndex = Map.empty, frameCache = []\<rparr>"

subsection \<open>JavaScript \<^verbatim>\<open>Map\<close>: insertion-ordered, one entry per key\<close>

fun map_set :: "('k \<times> 'v) list \<Rightarrow> 'k \<Rightarrow> 'v \<Rightarrow> ('k \<times> 'v) list" where
  "map_set [] k v = [(k, v)]"
| "map_set ((k', v') # m) k v =
     (if k' = k then (k, v) # m else (k', v') # map_set m k v)"

definition map_has :: "('k \<times> 'v) list \<Rightarrow> 'k \<Rightarrow> bool" where
  "map_has m k = (map_of m k \<noteq> None)"

definition map_delete :: "('k \<times> 'v) list \<Rightarrow> 'k \<Rightarrow> ('k \<times> 'v) list" where
  "map_delete m k = filter (\<lambda>kv. fst kv \<noteq> k) m"

section \<open>BagService.loadFile\<close>

datatype LoadError = InitError | OpenError | NoCompatibleTopics | ReadError | NoMessages

datatype ConsoleEntry = ConsoleWarn string | ConsoleError LoadError

definition init :: "bool \<Rightarrow> BagService \<Rightarrow> LoadError + BagService" where
  "init cv_loads s =
     (if cv s then Inr s
      else if cv_loads then Inr (s\<lparr>cv := True\<rparr>)
      else Inl InitError)"

definition reset :: "BagService \<Rightarrow> BagService" where
  "reset s =
     s\<lparr>frameCache := [], timestamps := [], topicMetadata := Map.empty,
       historicalJointData := Map.empty, frameImageIndex := Map.empty,
       imageTopics := [], jointTopics := [], bag := None\<rparr>"

definition timeToMs :: "Time \<Rightarrow> int" where
  "timeToMs t = int (sec t) * 1000 + Math_round (rat_of_nat (nsec t) / 1000000)"

definition analyzeConnection :: "Connection \<Rightarrow> BagService \<Rightarrow> BagService" where
  "analyzeConnection conn s =
     (let s1 =
        (if conn_type conn = ''sensor_msgs/Image''
            \<or> conn_type conn = ''sensor_msgs/CompressedImage''
         then s\<lparr>topicMetadata := (topicMetadata s)
                   (conn_topic conn \<mapsto> \<lparr>msgType = conn_type conn, title = conn_topic conn\<rparr>),
                 imageTopics := imageTopics s @ [conn_topic conn]\<rparr>
         else s)
      in if conn_type conn = ''sensor_msgs/JointState''
         then s1\<lparr>topicMetadata := (topicMetadata s1)
                   (conn_topic conn \<mapsto> \<lparr>msgType = conn_type conn, title = conn_topic conn\<rparr>),
                  jointTopics := jointTopics s1 @ [conn_topic conn]\<rparr>
         else s1)"

definition toLight :: "string list \<Rightarrow> BagMessage \<Rightarrow> LightMessage" where
  "toLight jts msg =
     \<lparr>timestamp = timeToMs (msg_timestamp msg),
      originalTime = msg_timestamp msg,
      topic = msg_topic msg,
      light_data = (if msg_topic msg \<in> set jts then Some (message msg) else None)\<rparr>"

text \<open>The running accumulator of the scan: cursor, joint values, image times.\<close>

record Scan =
  msgCursor :: nat
  currentJoints :: "string \<rightharpoonup> RosMessage"
  currentImageTimes :: FrameImageMap

text \<open>The ``update current state'' block, which both loops of the source contain.\<close>

definition updateCurrent :: "string list \<Rightarrow> LightMessage \<Rightarrow> Scan \<Rightarrow> Scan" where
  "updateCurrent jts msg sc =
     (if topic msg \<in> set jts
      then sc\<lparr>currentJoints := (currentJoints sc)(topic msg := light_data msg)\<rparr>
      else sc\<lparr>currentImageTimes :=
                map_set (currentImageTimes sc) (topic msg) (originalTime msg)\<rparr>)"

text \<open>
  The bootstrap loop from index \<open>i\<close>.  It returns \<open>firstFullStateTime\<close> (\<open>None\<close> for
  \<^verbatim>\<open>null\<close>) and the accumulator, whose cursor field holds \<open>startMsgIndex\<close>.
\<close>

function bootstrap ::
  "string list \<Rightarrow> string list \<Rightarrow> LightMessage list \<Rightarrow> nat \<Rightarrow> string set \<Rightarrow> Scan
     \<Rightarrow> int option \<times> Scan" where
  "bootstrap jts targetTopics allMessages i seenTopics sc =
     (if i < length allMessages then
        (let msg = allMessages ! i;
             seen = insert (topic msg) seenTopics;
             sc1 = updateCurrent jts msg sc
         in if list_all (\<lambda>t. t \<in> seen) targetTopics
            then (Some (timestamp msg), sc1\<lparr>msgCursor := i\<rparr>)
            else bootstrap jts targetTopics allMessages (Suc i) seen sc1)
      else (None, sc))"
  by pat_completeness auto
termination
  by (relation "measure (\<lambda>(jts, tts, all, i, seen, sc). length all - i)") auto

declare bootstrap.simps [simp del]

text \<open>The inner \<^verbatim>\<open>while\<close> of the frame loop.\<close>

function consume :: "string list \<Rightarrow> LightMessage list \<Rightarrow> rat \<Rightarrow> Scan \<Rightarrow> Scan" where
  "consume jts allMessages t sc =
     (if msgCursor sc < length allMessages
         \<and> rat_of_int (timestamp (allMessages ! msgCursor sc)) \<le> t
      then consume jts allMessages t
             ((updateCurrent jts (allMessages ! msgCursor sc) sc)
                \<lparr>msgCursor := Suc (msgCursor sc)\<rparr>)
      else sc)"
  by pat_completeness auto
termination
  by (relation "measure (\<lambda>(jts, all, t, sc). length all - msgCursor sc)")
     (auto simp: updateCurrent_def)

declare consume.simps [simp del]

fun string_of_nat :: "nat \<Rightarrow> string" where
  "string_of_nat n =
     (if n < 10 then [char_of (48 + n)]
      else string_of_nat (n div 10) @ [char_of (48 + n mod 10)])"

declare string_of_nat.simps [simp del]

definition generatedNames :: "nat \<Rightarrow> string list" where
  "generatedNames len = map (\<lambda>k. ''joint'' @ string_of_nat (k + 1)) [0..<len]"

definition snapshotTopic ::
  "(string \<rightharpoonup> RosMessage) \<Rightarrow> string \<Rightarrow> (string \<rightharpoonup> RosMessage) \<Rightarrow> (string \<rightharpoonup> RosMessage)" where
  "snapshotTopic joints tp frameJoints =
     (case joints tp of
        None \<Rightarrow> frameJoints
      | Some rawMsg \<Rightarrow>
          (if name rawMsg = None \<or> name rawMsg = Some []
           then let len = (case position rawMsg of Some p \<Rightarrow> length p | None \<Rightarrow> 0)
                in frameJoints(tp \<mapsto> rawMsg\<lparr>name := Some (generatedNames len)\<rparr>)
           else frameJoints(tp \<mapsto> rawMsg)))"

definition frameJoints ::
  "string list \<Rightarrow> (string \<rightharpoonup> RosMessage) \<Rightarrow> (string \<rightharpoonup> RosMessage)" where
  "frameJoints jts joints = fold (snapshotTopic joints) jts Map.empty"

definition snapshotJointData ::
  "nat \<Rightarrow> (string \<rightharpoonup> RosMessage) \<Rightarrow> BagService \<Rightarrow> BagService" where
  "snapshotJointData frameIdx joints s =
     s\<lparr>historicalJointData :=
         (historicalJointData s)(frameIdx \<mapsto> frameJoints (jointTopics s) joints)\<rparr>"

text \<open>One iteration of the frame loop at nominal time \<open>t\<close>.\<close>

definition frame_body ::
  "LightMessage list \<Rightarrow> rat \<Rightarrow> BagService \<times> Scan \<Rightarrow> BagService \<times> Scan" where
  "frame_body allMessages t st =
     (let s = fst st;
          frameTime = Math_round t;
          frameIdx = length (timestamps s);
          s1 = s\<lparr>timestamps := timestamps s @ [frameTime]\<rparr>;
          sc = consume (jointTopics s1) allMessages t (snd st);
          s2 = snapshotJointData frameIdx (currentJoints sc) s1;
          s3 = s2\<lparr>frameImageIndex := (frameImageIndex s2)(frameIdx \<mapsto> currentImageTimes sc)\<rparr>
      in (s3, sc))"

text \<open>
  The frame loop \<^verbatim>\<open>for (let t = firstFullStateTime; t <= endTime; t += 33.33)\<close>.  Nothing in
  the source bounds it: where the rounded sum does not exceed \<open>t\<close> the loop does not end,
  which is the value \<open>None\<close>.
\<close>

partial_function (option) frame_loop ::
  "LightMessage list \<Rightarrow> rat \<Rightarrow> rat \<Rightarrow> BagService \<times> Scan \<Rightarrow> (BagService \<times> Scan) option" where
  "frame_loop allMessages endTime t st =
     (if t \<le> endTime
      then frame_loop allMessages endTime (js_add t FRAME_STEP) (frame_body allMessages t st)
      else Some st)"

text \<open>The value of \<open>t\<close> at the start of iteration \<open>k\<close> of the frame loop begun at \<open>t0\<close>.\<close>

definition nominal :: "rat \<Rightarrow> nat \<Rightarrow> rat" where
  "nominal t0 k = ((\<lambda>t. js_add t FRAME_STEP) ^^ k) t0"

definition INCOMPLETE_BAG :: string where
  "INCOMPLETE_BAG = ''Incomplete bag: not all topics appeared. Falling back to simple start.''"

text \<open>Step 1 of \<^verbatim>\<open>loadFile\<close>, ``Analyze Topics'', with the sorting of the two topic lists.\<close>

definition analyzeTopics :: "Connection list \<Rightarrow> BagService \<Rightarrow> BagService" where
  "analyzeTopics conns s =
     (let s1 = fold analyzeConnection conns s
      in s1\<lparr>imageTopics := sort (imageTopics s1), jointTopics := sort (jointTopics s1)\<rparr>)"

definition targetTopics :: "BagService \<Rightarrow> string list" where
  "targetTopics s = imageTopics s @ jointTopics s"

text \<open>Step 2, ``Extract All Messages'': the scan restricted to the target topics.\<close>

definition extractMessages :: "BagFile \<Rightarrow> BagService \<Rightarrow> LightMessage list" where
  "extractMessages file s =
     map (toLight (jointTopics s))
       (filter (\<lambda>m. msg_topic m \<in> set (targetTopics s)) (messages file))"

text \<open>
  Step 3, ``Bootstrapping'': \<open>firstFullStateTime\<close>, what is written to the console, and
  the accumulator with \<open>startMsgIndex\<close> as its cursor.
\<close>

definition bootstrapping ::
  "BagService \<Rightarrow> LightMessage list \<Rightarrow> int \<times> ConsoleEntry list \<times> Scan" where
  "bootstrapping s allMessages =
     (let boot = bootstrap (jointTopics s) (targetTopics s) allMessages 0 {}
                   \<lparr>msgCursor = 0, currentJoints = Map.empty, currentImageTimes = []\<rparr>
      in case fst boot of
           Some t \<Rightarrow> (t, [], snd boot)
         | None \<Rightarrow> (timestamp (allMessages ! 0), [ConsoleWarn INCOMPLETE_BAG],
                    (snd boot)\<lparr>msgCursor := 0\<rparr>))"

text \<open>Step 4, ``Generate 30Hz Frames''.\<close>

definition generateFrames ::
  "LightMessage list \<Rightarrow> int \<Rightarrow> Scan \<Rightarrow> BagService \<Rightarrow> BagService option" where
  "generateFrames allMessages firstFullStateTime sc s =
     (let endTime = timestamp (allMessages ! (length allMessages - 1))
      in map_option fst
           (frame_loop allMessages (rat_of_int endTime) (rat_of_int firstFullStateTime) (s, sc)))"

type_synonym LoadOutcome = "(LoadError + unit) \<times> ConsoleEntry list \<times> BagService"

definition failed :: "LoadError \<Rightarrow> BagService \<Rightarrow> LoadOutcome option" where
  "failed e s = Some (Inl e, [ConsoleError e], s)"

text \<open>
  The \<^verbatim>\<open>try\<close> block of \<^verbatim>\<open>loadFile\<close>, run on the service as \<^verbatim>\<open>reset()\<close> left it: the
  outcome (the error thrown, or completion), what is written to the console, and the
  service afterwards; \<open>None\<close> when the frame loop does not end.
\<close>

definition loadBody :: "BagFile \<Rightarrow> BagService \<Rightarrow> LoadOutcome option" where
  "loadBody file s1 =
     (let s2 = s1\<lparr>bag := Some file\<rparr> in
      if \<not> opens file then failed OpenError s2 else
      let s3 = analyzeTopics (connections file) s2 in
      if targetTopics s3 = [] then failed NoCompatibleTopics s3 else
      if \<not> readable file then failed ReadError s3 else
      let scanned = extractMessages file s3 in
      if scanned = [] then failed NoMessages s3 else
      let allMessages = sort_key timestamp scanned;
          boot = bootstrapping s3 allMessages
      in map_option (\<lambda>s. (Inr (), fst (snd boot), s))
           (generateFrames allMessages (fst boot) (snd (snd boot)) s3))"

text \<open>
  \<open>loadFile cv_loads file s\<close>, where \<open>cv_loads\<close> tells whether the image library
  initialises: a failing \<^verbatim>\<open>init()\<close> rejects before \<^verbatim>\<open>reset()\<close> runs.
\<close>

definition loadFile :: "bool \<Rightarrow> BagFile \<Rightarrow> BagService \<Rightarrow> LoadOutcome option" where
  "loadFile cv_loads file s0 =
     (case init cv_loads s0 of
        Inl e \<Rightarrow> Some (Inl e, [], s0)
      | Inr s1 \<Rightarrow> loadBody file (reset s1))"

text \<open>
  What a load of \<open>file\<close> works with: the service after the topic analysis of a fresh
  service, and the sorted message list \<open>allMessages\<close>.
\<close>

definition classified :: "BagFile \<Rightarrow> BagService" where
  "classified file = analyzeTopics (connections file) new_BagService"

definition fileMessages :: "BagFile \<Rightarrow> LightMessage list" where
  "fileMessages file = sort_key timestamp (extractMessages file (classified file))"

text \<open>
  The bootstrap time \<open>firstFullStateTime\<close>, the accumulator at the start of the frame loop,
  and \<open>endTime\<close>, the timestamp of the last message of \<open>allMessages\<close>.
\<close>

definition bootstrapTime :: "BagFile \<Rightarrow> int" where
  "bootstrapTime file = fst (bootstrapping (classified file) (fileMessages file))"

definition bootstrapScan :: "BagFile \<Rightarrow> Scan" where
  "bootstrapScan file = snd (snd (bootstrapping (classified file) (fileMessages file)))"

definition lastMessageTime :: "BagFile \<Rightarrow> int" where
  "lastMessageTime file = timestamp (fileMessages file ! (length (fileMessages file) - 1))"

text \<open>
  Timestamps as a ROS 1 bag stores them: seconds and nanoseconds are unsigned 32-bit
  integers.
\<close>

definition ros_times :: "BagFile \<Rightarrow> bool" where
  "ros_times file =
     list_all (\<lambda>m. sec (msg_timestamp m) < 2 ^ 32 \<and> nsec (msg_timestamp m) < 2 ^ 32)
       (messages file)"

section \<open>BagService.getFrameAt\<close>

text \<open>
  The outcome of the point lookup \<^verbatim>\<open>messageIterator({topics: [topic], start: exactTime})\<close>
  as the loop over it sees it: the iteration throws, yields nothing, or yields a first
  message.  The image conversions of \<^verbatim>\<open>ImageProcessor\<close> are calls into OpenCV and a canvas;
  each is a function to the data URL produced, \<open>None\<close> when it throws.
\<close>

datatype LookupResult = LookupThrows | LookupEmpty | LookupFirst BagMessage

record IO =
  lookup :: "string \<Rightarrow> Time \<Rightarrow> LookupResult"
  processDepthImage :: "nat list \<Rightarrow> nat \<Rightarrow> nat \<Rightarrow> string option"
  processBGR8Image :: "nat list \<Rightarrow> nat \<Rightarrow> nat \<Rightarrow> string option"
  processRGB8Image :: "nat list \<Rightarrow> nat \<Rightarrow> nat \<Rightarrow> string option"
  processMono8Image :: "nat list \<Rightarrow> nat \<Rightarrow> nat \<Rightarrow> string option"

text \<open>\<^verbatim>\<open>s.includes(sub)\<close> on strings.\<close>

fun str_includes :: "string \<Rightarrow> string \<Rightarrow> bool" where
  "str_includes [] sub = (sub = [])"
| "str_includes (c # cs) sub = (take (length sub) (c # cs) = sub \<or> str_includes cs sub)"

text \<open>\<^verbatim>\<open>ImageProcessor.processMessage\<close>: \<open>None\<close> is \<^verbatim>\<open>null\<close>, also after a caught exception.\<close>

definition processMessage :: "IO \<Rightarrow> BagService \<Rightarrow> RosMessage \<Rightarrow> string option" where
  "processMessage io s msg =
     (if \<not> cv s then None
      else if encoding msg = Some ''16UC1''
        then processDepthImage io (data msg) (width msg) (height msg)
      else if encoding msg = Some ''bgr8''
        then processBGR8Image io (data msg) (width msg) (height msg)
      else if encoding msg = Some ''rgb8''
        then processRGB8Image io (data msg) (width msg) (height msg)
      else if encoding msg = Some ''mono8''
        then processMono8Image io (data msg) (width msg) (height msg)
      else None)"

text \<open>
  The body of the per-topic \<^verbatim>\<open>try\<close> block: the image stored under the topic, \<open>None\<close> when
  nothing is stored (the lookup threw or was empty, the first message has another time,
  the conversion gave \<^verbatim>\<open>null\<close> or the empty string).
\<close>

definition fetchImage :: "IO \<Rightarrow> BagService \<Rightarrow> string \<Rightarrow> Time \<Rightarrow> ImageUrl option" where
  "fetchImage io s tp exactTime =
     (case lookup io tp exactTime of
        LookupThrows \<Rightarrow> None
      | LookupEmpty \<Rightarrow> None
      | LookupFirst msg \<Rightarrow>
          (if sec (msg_timestamp msg) = sec exactTime \<and> nsec (msg_timestamp msg) = nsec exactTime
           then (case topicMetadata s tp of
                   None \<Rightarrow> None
                 | Some meta \<Rightarrow>
                     (if str_includes (msgType meta) ''CompressedImage''
                      then (let fmt = (case format (message msg) of
                                         None \<Rightarrow> ''jpeg''
                                       | Some f \<Rightarrow> if str_includes f ''png'' then ''png'' else ''jpeg'')
                            in Some (ObjectUrl (''image/'' @ fmt) (data (message msg))))
                      else (case processMessage io s (message msg) of
                              None \<Rightarrow> None
                            | Some url \<Rightarrow> if url = [] then None else Some (DataUrl url))))
           else None))"

definition fetchImages ::
  "IO \<Rightarrow> BagService \<Rightarrow> FrameImageMap \<Rightarrow> (string \<rightharpoonup> ImageUrl)" where
  "fetchImages io s imageSnapshot =
     fold (\<lambda>entry imgs. case fetchImage io s (fst entry) (snd entry) of
                           None \<Rightarrow> imgs
                         | Some url \<Rightarrow> imgs(fst entry \<mapsto> url))
       imageSnapshot Map.empty"

text \<open>The frame a cache miss builds for an index in range.\<close>

definition materialize :: "IO \<Rightarrow> BagService \<Rightarrow> nat \<Rightarrow> ParsedFrame" where
  "materialize io s i =
     \<lparr>frame_timestamp = timestamps s ! i,
      index = int i,
      images = (case frameImageIndex s i of
                  None \<Rightarrow> Map.empty
                | Some imageSnapshot \<Rightarrow> fetchImages io s imageSnapshot),
      jointStateMap = (case historicalJointData s i of
                         None \<Rightarrow> Map.empty
                       | Some joints \<Rightarrow> joints)\<rparr>"

text \<open>Insertion into the cache and the eviction that follows it.\<close>

definition cacheInsert ::
  "(int \<times> ParsedFrame) list \<Rightarrow> int \<Rightarrow> ParsedFrame \<Rightarrow> (int \<times> ParsedFrame) list" where
  "cacheInsert cache targetTs frameData =
     (let cache1 = map_set cache targetTs frameData
      in if 30 < length cache1
         then (case cache1 of [] \<Rightarrow> cache1 | first # rest \<Rightarrow> map_delete cache1 (fst first))
         else cache1)"

text \<open>
  \<open>getFrameAt io idx s\<close>: the frame returned (\<open>None\<close> for \<^verbatim>\<open>null\<close>) and the service
  afterwards, for one call that runs from its start to its end.
\<close>

definition getFrameAt :: "IO \<Rightarrow> int \<Rightarrow> BagService \<Rightarrow> ParsedFrame option \<times> BagService" where
  "getFrameAt io idx s =
     (if bag s = None \<or> idx < 0 \<or> int (length (timestamps s)) \<le> idx then (None, s)
      else let targetTs = timestamps s ! nat idx in
        if map_has (frameCache s) targetTs then (map_of (frameCache s) targetTs, s)
        else let frameData = materialize io s (nat idx)
             in (Some frameData,
                 s\<lparr>frameCache := cacheInsert (frameCache s) targetTs frameData\<rparr>))"

fun serve :: "(IO \<times> int) list \<Rightarrow> BagService \<Rightarrow> BagService" where
  "serve [] s = s"
| "serve (c # cs) s = serve cs (snd (getFrameAt (fst c) (snd c) s))"

definition cache_ok :: "BagService \<Rightarrow> bool" where
  "cache_ok s \<longleftrightarrow>
     distinct (map fst (frameCache s)) \<and> length (frameCache s) \<le> 30
     \<and> (\<forall>kf \<in> set (frameCache s). frame_timestamp (snd kf) = fst kf)"

definition joint_msg :: "rat list \<Rightarrow> RosMessage" where
  "joint_msg p = \<lparr>name = Some [''a'', ''b'', ''c''], position = Some p, velocity = Some [],
                  effort = Some [], format = None, encoding = None, width = 0, height = 0,
                  data = []\<rparr>"

definition image_msg :: "nat list \<Rightarrow> RosMessage" where
  "image_msg bytes = \<lparr>name = None, position = None, velocity = None, effort = None,
                  format = None, encoding = Some ''rgb8'', width = 1, height = 1, data = bytes\<rparr>"

definition state_at :: "nat \<Rightarrow> rat list \<Rightarrow> BagMessage" where
  "state_at ns p = \<lparr>msg_topic = ''/state'', msg_timestamp = \<lparr>sec = 0, nsec = ns\<rparr>,
                    message = joint_msg p\<rparr>"

definition cam_at :: "nat \<Rightarrow> nat list \<Rightarrow> BagMessage" where
  "cam_at ns bytes = \<lparr>msg_topic = ''/cam'', msg_timestamp = \<lparr>sec = 0, nsec = ns\<rparr>,
                      message = image_msg bytes\<rparr>"

definition scenario_bag :: BagFile where
  "scenario_bag =
     \<lparr>opens = True,
      connections = [\<lparr>conn_topic = ''/state'', conn_type = ''sensor_msgs/JointState''\<rparr>,
                     \<lparr>conn_topic = ''/cam'', conn_type = ''sensor_msgs/Image''\<rparr>],
      readable = True,
      messages = [state_at 0 [0, 0, 0], cam_at 0 [1], cam_at 40000000 [2],
                  state_at 50000000 [1, 1, 1], state_at 67000000 [2, 2, 2]]\<rparr>"

definition state_of :: "LoadOutcome option \<Rightarrow> BagService" where
  "state_of r = (case r of Some out \<Rightarrow> snd (snd out) | None \<Rightarrow> new_BagService)"

definition scenario_loaded :: BagService where
  "scenario_loaded = state_of (loadFile True scenario_bag new_BagService)"

definition isImageConn :: "Connection \<Rightarrow> bool" where
  "isImageConn c \<longleftrightarrow> conn_type c = ''sensor_msgs/Image'' \<or> conn_type c = ''sensor_msgs/CompressedImage''"

definition isJointConn :: "Connection \<Rightarrow> bool" where
  "isJointConn c \<longleftrightarrow> conn_type c = ''sensor_msgs/JointState''"

definition metaOf :: "Connection \<Rightarrow> (string \<rightharpoonup> TopicMeta) \<Rightarrow> (string \<rightharpoonup> TopicMeta)" where
  "metaOf c m = (if isImageConn c \<or> isJointConn c
                 then m(conn_topic c \<mapsto> \<lparr>msgType = conn_type c, title = conn_topic c\<rparr>) else m)"

definition scan0 :: Scan where
  "scan0 = \<lparr>msgCursor = 0, currentJoints = Map.empty, currentImageTimes = []\<rparr>"

definition light :: "int \<Rightarrow> BagMessage \<Rightarrow> bool \<Rightarrow> LightMessage" where
  "light ms m joint = \<lparr>timestamp = ms, originalTime = msg_timestamp m, topic = msg_topic m,
                        light_data = (if joint then Some (message m) else None)\<rparr>"

text \<open>
  A reader whose point lookups do not fail: the first message of the topic at or after the
  start time, in the order of the file.
\<close>

definition time_le :: "Time \<Rightarrow> Time \<Rightarrow> bool" where
  "time_le a b \<longleftrightarrow> sec a < sec b \<or> (sec a = sec b \<and> nsec a \<le> nsec b)"

definition reader_lookup :: "BagFile \<Rightarrow> string \<Rightarrow> Time \<Rightarrow> LookupResult" where
  "reader_lookup file tp start =
     (case filter (\<lambda>m. msg_topic m = tp \<and> time_le start (msg_timestamp m)) (messages file) of
        [] \<Rightarrow> LookupEmpty
      | m # ms \<Rightarrow> LookupFirst m)"

definition scenario_io :: IO where
  "scenario_io =
     \<lparr>lookup = reader_lookup scenario_bag,
      processDepthImage = (\<lambda>d w h. Some (''depth'' @ string_of_nat (length d))),
      processBGR8Image = (\<lambda>d w h. Some (''bgr'' @ string_of_nat (length d))),
      processRGB8Image = (\<lambda>d w h. Some (''rgb'' @ string_of_nat (length d))),
      processMono8Image = (\<lambda>d w h. Some (''mono'' @ string_of_nat (length d)))\<rparr>"

definition closed_bag :: BagFile where
  "closed_bag = scenario_bag\<lparr>opens := False\<rparr>"

definition at_sec :: "nat \<Rightarrow> BagMessage \<Rightarrow> BagMessage" where
  "at_sec s m = m\<lparr>msg_timestamp := (msg_timestamp m)\<lparr>sec := s\<rparr>\<rparr>"

definition drift_bag :: BagFile where
  "drift_bag =
     scenario_bag\<lparr>messages :=
       [at_sec 1700000000 (state_at 0 [0, 0, 0]), at_sec 1700000000 (cam_at 0 [1]),
        at_sec 1700000003 (state_at 333000000 [1, 1, 1])]\<rparr>"

definition drift_loaded :: BagService where
  "drift_loaded = state_of (loadFile True drift_bag new_BagService)"



definition degraded_bag :: BagFile where
  "degraded_bag = scenario_bag\<lparr>messages := [cam_at 0 [1], cam_at 40000000 [2]]\<rparr>"

section \<open>Properties\<close>

lemma analyzeConnection_keeps:
  "timestamps (analyzeConnection c s) = timestamps s"
  "frameCache (analyzeConnection c s) = frameCache s"
  "bag (analyzeConnection c s) = bag s"
  "cv (analyzeConnection c s) = cv s"
  "historicalJointData (analyzeConnection c s) = historicalJointData s"
  "frameImageIndex (analyzeConnection c s) = frameImageIndex s"
  by (simp_all add: analyzeConnection_def Let_def)

lemma fold_analyzeConnection_keeps:
  "timestamps (fold analyzeConnection cs s) = timestamps s"
  "frameCache (fold analyzeConnection cs s) = frameCache s"
  "bag (fold analyzeConnection cs s) = bag s"
  "cv (fold analyzeConnection cs s) = cv s"
  "historicalJointData (fold analyzeConnection cs s) = historicalJointData s"
  "frameImageIndex (fold analyzeConnection cs s) = frameImageIndex s"
  by (induction cs arbitrary: s; simp add: analyzeConnection_keeps)+

lemma analyzeTopics_keeps:
  "timestamps (analyzeTopics cs s) = timestamps s"
  "frameCache (analyzeTopics cs s) = frameCache s"
  "bag (analyzeTopics cs s) = bag s"
  "cv (analyzeTopics cs s) = cv s"
  "historicalJointData (analyzeTopics cs s) = historicalJointData s"
  "frameImageIndex (analyzeTopics cs s) = frameImageIndex s"
  by (simp_all add: analyzeTopics_def Let_def fold_analyzeConnection_keeps)

lemma frame_body_keeps:
  "bag (fst (frame_body all t st)) = bag (fst st)"
  "cv (fst (frame_body all t st)) = cv (fst st)"
  "frameCache (fst (frame_body all t st)) = frameCache (fst st)"
  "topicMetadata (fst (frame_body all t st)) = topicMetadata (fst st)"
  "imageTopics (fst (frame_body all t st)) = imageTopics (fst st)"
  "jointTopics (fst (frame_body all t st)) = jointTopics (fst st)"
  "timestamps (fst (frame_body all t st)) = timestamps (fst st) @ [Math_round t]"
  by (simp_all add: frame_body_def Let_def snapshotJointData_def)

lemma frame_loop_keeps:
  assumes "frame_loop all e t st = Some st'"
  shows "bag (fst st') = bag (fst st) \<and> cv (fst st') = cv (fst st)
       \<and> frameCache (fst st') = frameCache (fst st)
       \<and> topicMetadata (fst st') = topicMetadata (fst st)
       \<and> imageTopics (fst st') = imageTopics (fst st)
       \<and> jointTopics (fst st') = jointTopics (fst st)"
  by (rule frame_loop.raw_induct[OF _ assms]) (auto split: if_splits simp: frame_body_keeps)

lemma reset_idem: "reset (reset s) = reset s"
  by (simp add: reset_def)

lemma loadFile_reset:
  assumes "cv s \<or> cv_loads"
  shows "loadFile cv_loads file s = loadFile cv_loads file (reset s)"
proof (cases "cv s")
  case True
  then have "init cv_loads s = Inr s" "init cv_loads (reset s) = Inr (reset s)"
    by (simp_all add: init_def reset_def)
  then show ?thesis by (simp add: loadFile_def reset_idem)
next
  case False
  with assms have "init cv_loads s = Inr (s\<lparr>cv := True\<rparr>)"
    "init cv_loads (reset s) = Inr ((reset s)\<lparr>cv := True\<rparr>)"
    by (simp_all add: init_def reset_def)
  moreover have "reset (s\<lparr>cv := True\<rparr>) = reset ((reset s)\<lparr>cv := True\<rparr>)"
    by (simp add: reset_def)
  ultimately show ?thesis by (simp add: loadFile_def)
qed

lemma loadBody_failed:
  assumes "loadBody file s1 = Some (Inl e, console, s')"
  shows "s' = s1\<lparr>bag := Some file\<rparr> \<or> s' = analyzeTopics (connections file) (s1\<lparr>bag := Some file\<rparr>)"
proof (cases "opens file")
  case False
  then show ?thesis using assms by (simp add: loadBody_def failed_def)
next
  case o: True
  define s3 where "s3 = analyzeTopics (connections file) (s1\<lparr>bag := Some file\<rparr>)"
  show ?thesis
  proof (cases "targetTopics s3 = [] \<or> \<not> readable file \<or> extractMessages file s3 = []")
    case True
    then show ?thesis using assms o
      by (auto simp: loadBody_def failed_def Let_def s3_def split: if_splits)
  next
    case False
    then show ?thesis using assms o
      by (simp add: loadBody_def failed_def Let_def s3_def)
  qed
qed

lemma loadBody_success:
  assumes "loadBody file s1 = Some (Inr u, console, s')"
  shows "opens file \<and> readable file
       \<and> targetTopics (analyzeTopics (connections file) (s1\<lparr>bag := Some file\<rparr>)) \<noteq> []
       \<and> extractMessages file (analyzeTopics (connections file) (s1\<lparr>bag := Some file\<rparr>)) \<noteq> []
       \<and> (let s3 = analyzeTopics (connections file) (s1\<lparr>bag := Some file\<rparr>);
              allMessages = sort_key timestamp (extractMessages file s3);
              boot = bootstrapping s3 allMessages
          in console = fst (snd boot)
             \<and> generateFrames allMessages (fst boot) (snd (snd boot)) s3 = Some s')"
proof -
  define s3 where "s3 = analyzeTopics (connections file) (s1\<lparr>bag := Some file\<rparr>)"
  have 1: "opens file"
    using assms by (auto simp: loadBody_def failed_def Let_def split: if_splits)
  have 2: "targetTopics s3 \<noteq> []"
    using assms 1 by (auto simp: loadBody_def failed_def s3_def Let_def split: if_splits)
  have 3: "readable file"
    using assms 1 2 by (auto simp: loadBody_def failed_def s3_def Let_def split: if_splits)
  have 4: "extractMessages file s3 \<noteq> []"
    using assms 1 2 3 by (auto simp: loadBody_def failed_def s3_def Let_def split: if_splits)
  show ?thesis
    using assms 1 2 3 4 by (auto simp: loadBody_def s3_def Let_def)
qed

lemma loadFile_failed:
  assumes "loadFile cv_loads file s = Some (Inl e, console, s')" "e \<noteq> InitError"
  shows "timestamps s' = [] \<and> frameCache s' = [] \<and> historicalJointData s' = Map.empty
       \<and> frameImageIndex s' = Map.empty \<and> bag s' = Some file"
proof -
  obtain s1 where s1: "init cv_loads s = Inr s1"
    using assms by (cases "init cv_loads s") (auto simp: loadFile_def init_def split: if_splits)
  then have "loadBody file (reset s1) = Some (Inl e, console, s')"
    using assms(1) by (simp add: loadFile_def)
  from loadBody_failed[OF this] show ?thesis
    by (auto simp: analyzeTopics_keeps reset_def)
qed

lemma generateFrames_keeps:
  assumes "generateFrames all t0 sc s = Some s'"
  shows "bag s' = bag s \<and> cv s' = cv s \<and> frameCache s' = frameCache s
       \<and> topicMetadata s' = topicMetadata s \<and> imageTopics s' = imageTopics s
       \<and> jointTopics s' = jointTopics s"
  using assms frame_loop_keeps unfolding generateFrames_def Let_def by fastforce

lemma loadFile_success:
  assumes "loadFile cv_loads file s = Some (Inr u, console, s')"
  shows "frameCache s' = [] \<and> bag s' = Some file \<and> cv s'"
proof -
  obtain s1 where s1: "init cv_loads s = Inr s1"
    using assms by (cases "init cv_loads s") (auto simp: loadFile_def)
  have cv1: "cv s1" using s1 by (auto simp: init_def split: if_splits)
  have "loadBody file (reset s1) = Some (Inr u, console, s')"
    using assms(1) s1 by (simp add: loadFile_def)
  from loadBody_success[OF this]
  obtain all t0 sc where
    "generateFrames all t0 sc (analyzeTopics (connections file) ((reset s1)\<lparr>bag := Some file\<rparr>)) = Some s'"
    unfolding Let_def by blast
  from generateFrames_keeps[OF this] show ?thesis
    using cv1 by (simp add: analyzeTopics_keeps reset_def)
qed

lemma map_set_new: "map_of m k = None \<Longrightarrow> map_set m k v = m @ [(k, v)]"
  by (induction m) (auto split: if_splits)

lemma map_delete_head:
  "distinct (map fst (x # r)) \<Longrightarrow> map_delete (x # r) (fst x) = r"
  unfolding map_delete_def
  by (induction r) (auto simp: rev_image_eqI)

lemma cacheInsert_new:
  assumes "map_of cache k = None" "distinct (map fst cache)"
  shows "cacheInsert cache k f =
           (if length cache < 30 then cache @ [(k, f)] else tl (cache @ [(k, f)]))"
proof -
  have d: "distinct (map fst (cache @ [(k, f)]))"
    using assms by (auto simp: map_of_eq_None_iff)
  show ?thesis
  proof (cases "cache @ [(k, f)]")
    case Nil then show ?thesis by simp
  next
    case (Cons x r)
    with d have "map_delete (x # r) (fst x) = r"
      using map_delete_head by metis
    moreover have "length r = length cache"
      using arg_cong[OF Cons, of length] by simp
    ultimately show ?thesis
      using Cons assms(1) by (auto simp: cacheInsert_def map_set_new Let_def)
  qed
qed

lemma getFrameAt_keeps:
  "timestamps (snd (getFrameAt io i s)) = timestamps s"
  "bag (snd (getFrameAt io i s)) = bag s"
  "cv (snd (getFrameAt io i s)) = cv s"
  "historicalJointData (snd (getFrameAt io i s)) = historicalJointData s"
  "frameImageIndex (snd (getFrameAt io i s)) = frameImageIndex s"
  "topicMetadata (snd (getFrameAt io i s)) = topicMetadata s"
  by (simp_all add: getFrameAt_def Let_def)

lemma serve_keeps:
  "timestamps (serve cs s) = timestamps s"
  "bag (serve cs s) = bag s"
  "cv (serve cs s) = cv s"
  "historicalJointData (serve cs s) = historicalJointData s"
  "frameImageIndex (serve cs s) = frameImageIndex s"
  "topicMetadata (serve cs s) = topicMetadata s"
  by (induction cs arbitrary: s; simp add: getFrameAt_keeps)+

lemma getFrameAt_miss_cache:
  assumes "bag s \<noteq> None" "0 \<le> i" "i < int (length (timestamps s))"
    "map_of (frameCache s) (timestamps s ! nat i) = None" "distinct (map fst (frameCache s))"
  shows "getFrameAt io i s =
           (Some (materialize io s (nat i)),
            s\<lparr>frameCache :=
                (if length (frameCache s) < 30
                 then frameCache s @ [(timestamps s ! nat i, materialize io s (nat i))]
                 else tl (frameCache s @ [(timestamps s ! nat i, materialize io s (nat i))]))\<rparr>)"
  using assms(1-4) cacheInsert_new[OF assms(4,5)]
  by (simp add: getFrameAt_def map_has_def Let_def del: map_of_eq_None_iff)

lemma getFrameAt_hit:
  assumes "bag s \<noteq> None" "0 \<le> i" "i < int (length (timestamps s))"
    "map_of (frameCache s) (timestamps s ! nat i) = Some f"
  shows "getFrameAt io i s = (Some f, s)"
  using assms by (simp add: getFrameAt_def map_has_def Let_def)

lemma getFrameAt_out_of_range:
  assumes "bag s = None \<or> i < 0 \<or> int (length (timestamps s)) \<le> i"
  shows "getFrameAt io i s = (None, s)"
  using assms by (auto simp add: getFrameAt_def)

lemma cache_ok_getFrameAt:
  assumes "cache_ok s"
  shows "cache_ok (snd (getFrameAt io i s))"
proof (cases "bag s = None \<or> i < 0 \<or> int (length (timestamps s)) \<le> i")
  case True
  then show ?thesis using assms by (simp add: getFrameAt_out_of_range)
next
  case False
  then have r: "bag s \<noteq> None" "0 \<le> i" "i < int (length (timestamps s))" by auto
  show ?thesis
  proof (cases "map_of (frameCache s) (timestamps s ! nat i)")
    case (Some f)
    then show ?thesis using assms r by (simp add: getFrameAt_hit)
  next
    case None
    have d: "distinct (map fst (frameCache s))" and l: "length (frameCache s) \<le> 30"
      and ft: "\<forall>kf \<in> set (frameCache s). frame_timestamp (snd kf) = fst kf"
      using assms by (simp_all add: cache_ok_def)
    define new where "new = frameCache s @ [(timestamps s ! nat i, materialize io s (nat i))]"
    have notin: "timestamps s ! nat i \<notin> fst ` set (frameCache s)"
      using None by (simp add: map_of_eq_None_iff)
    have d_new: "distinct (map fst new)"
      using d notin by (simp add: new_def)
    have ft_new: "\<forall>kf \<in> set new. frame_timestamp (snd kf) = fst kf"
      using ft by (simp add: new_def materialize_def)
    have d_tl: "distinct (map fst (tl new))"
      using d_new by (simp add: distinct_tl map_tl)
    have ft_tl: "\<forall>kf \<in> set (tl new). frame_timestamp (snd kf) = fst kf"
      using ft_new by (metis list.set_sel(2) tl_Nil)
    have len_new: "length new = Suc (length (frameCache s))"
      by (simp add: new_def)
    show ?thesis
    proof (cases "length (frameCache s) < 30")
      case True
      then have "frameCache (snd (getFrameAt io i s)) = new"
        by (simp add: getFrameAt_miss_cache[OF r None d] new_def)
      then show ?thesis
        using d_new ft_new len_new True by (simp add: cache_ok_def)
    next
      case False
      then have "frameCache (snd (getFrameAt io i s)) = tl new"
        by (simp add: getFrameAt_miss_cache[OF r None d] new_def)
      then show ?thesis
        using d_tl ft_tl len_new l by (simp add: cache_ok_def)
    qed
  qed
qed

lemma cache_ok_serve: "cache_ok s \<Longrightarrow> cache_ok (serve cs s)"
  by (induction cs arbitrary: s) (simp_all add: cache_ok_getFrameAt)

lemma cache_ok_loaded:
  assumes "loadFile cv_loads file s = Some (Inr u, console, s')"
  shows "cache_ok s'"
  using loadFile_success[OF assms] by (simp add: cache_ok_def)

lemma floor_rat_numeral: "\<lfloor>numeral a / numeral b :: rat\<rfloor> = numeral a div numeral b"
  by (metis floor_divide_of_int_eq of_int_numeral)

lemma bitlen_eqI:
  assumes "2 ^ (n - 1) \<le> x" "x < 2 ^ n" "0 < n"
  shows "bitlen x = int n"
proof (rule antisym)
  show "bitlen x \<le> int n"
    using assms(2) by (simp add: bitlen_le_iff_power)
  show "int n \<le> bitlen x"
    using assms(1,3) by (simp add: bitlen_ge_iff_power)
qed

lemma double_round_binade:
  assumes "2 ^ (n - 1) \<le> \<lfloor>x\<rfloor>" "\<lfloor>x\<rfloor> < 2 ^ n" "0 < n"
  shows "double_round x = rat_of_int (round_even (x / pow2 (int n - 53))) * pow2 (int n - 53)"
  using bitlen_eqI[OF assms] by (simp add: double_round_def Let_def)

lemma round_even_error: "\<bar>rat_of_int (round_even m) - m\<bar> \<le> 1 / 2"
proof -
  have "rat_of_int \<lfloor>m\<rfloor> \<le> m" "m < rat_of_int \<lfloor>m\<rfloor> + 1"
    by linarith+
  then show ?thesis
    by (auto simp: round_even_def Let_def)
qed

lemma pow2_pos: "0 < pow2 e"
  by (simp add: pow2_def)

lemma pow2_powi: "pow2 e = 2 powi e"
  by (simp add: pow2_def power_int_def inverse_eq_divide power_one_over)

lemma pow2_mono: "e \<le> e' \<Longrightarrow> pow2 e \<le> pow2 e'"
  by (simp add: pow2_powi power_int_increasing)

lemma double_round_error:
  assumes "1 \<le> x" "x < 2 ^ 43"
  shows "\<bar>double_round x - x\<bar> \<le> 1 / 2048"
proof -
  define p where "p = pow2 (bitlen \<lfloor>x\<rfloor> - 53)"
  have "\<lfloor>x\<rfloor> < 2 ^ 43" using assms(2) by (simp add: floor_less_iff)
  then have "bitlen \<lfloor>x\<rfloor> \<le> 43" by (simp add: bitlen_le_iff_power)
  then have "p \<le> pow2 (- 10)" unfolding p_def by (intro pow2_mono) simp
  then have p_le: "p \<le> 1 / 1024" by (simp add: pow2_def)
  have p_pos: "0 < p" by (simp add: p_def pow2_pos)
  have "double_round x - x = (rat_of_int (round_even (x / p)) - x / p) * p"
    using p_pos by (simp add: double_round_def Let_def p_def field_simps)
  then have "\<bar>double_round x - x\<bar> = \<bar>rat_of_int (round_even (x / p)) - x / p\<bar> * p"
    using p_pos by (simp add: abs_mult)
  also have "\<dots> \<le> 1 / 2 * p"
    using round_even_error[of "x / p"] p_pos by (intro mult_right_mono) auto
  also have "\<dots> \<le> 1 / 2048" using p_le by simp
  finally show ?thesis .
qed

lemma FRAME_STEP_bounds: "333299 / 10000 \<le> FRAME_STEP" "FRAME_STEP \<le> 333301 / 10000"
  by (simp_all add: FRAME_STEP_def)

lemma js_add_step:
  assumes "0 \<le> t" "t < 2 ^ 43 - 34"
  shows "t + 33329 / 1000 \<le> js_add t FRAME_STEP" "js_add t FRAME_STEP \<le> t + 33331 / 1000"
proof -
  have "1 \<le> t + FRAME_STEP" "t + FRAME_STEP < 2 ^ 43"
    using assms FRAME_STEP_bounds by linarith+
  from double_round_error[OF this] have "\<bar>js_add t FRAME_STEP - (t + FRAME_STEP)\<bar> \<le> 1 / 2048"
    by (simp add: js_add_def)
  then show "t + 33329 / 1000 \<le> js_add t FRAME_STEP" "js_add t FRAME_STEP \<le> t + 33331 / 1000"
    using FRAME_STEP_bounds by linarith+
qed

lemma nominal_0 [simp]: "nominal t 0 = t"
  by (simp add: nominal_def)

lemma nominal_Suc: "nominal t (Suc k) = js_add (nominal t k) FRAME_STEP"
  by (simp add: nominal_def)

lemma nominal_shift: "nominal (js_add t FRAME_STEP) k = nominal t (Suc k)"
  using funpow_swap1[of "\<lambda>t. js_add t FRAME_STEP" k t] by (simp add: nominal_def)

lemma frame_loop_unroll:
  assumes "\<forall>k<n. nominal t k \<le> e" "e < nominal t n"
  shows "frame_loop all e t st = Some (fold (frame_body all) (map (nominal t) [0..<n]) st)"
  using assms
proof (induction n arbitrary: t st)
  case 0
  then show ?case by (simp add: frame_loop.simps)
next
  case (Suc n)
  have le: "t \<le> e" using Suc.prems(1) by force
  have "\<forall>k<n. nominal (js_add t FRAME_STEP) k \<le> e" "e < nominal (js_add t FRAME_STEP) n"
    using Suc.prems by (auto simp: nominal_shift)
  from Suc.IH[OF this]
  have "frame_loop all e (js_add t FRAME_STEP) (frame_body all t st) =
          Some (fold (frame_body all) (map (nominal (js_add t FRAME_STEP)) [0..<n]) (frame_body all t st))" .
  moreover have "map (nominal t) [0..<Suc n] = t # map (nominal (js_add t FRAME_STEP)) [0..<n]"
    by (simp add: upt_conv_Cons map_Suc_upt[symmetric] nominal_shift del: upt_Suc)
  ultimately show ?case
    using le by (subst frame_loop.simps) simp
qed

lemma frame_loop_frames:
  assumes "frame_loop all e t st = Some st'"
  shows "\<exists>n. (\<forall>k<n. nominal t k \<le> e) \<and> e < nominal t n
             \<and> st' = fold (frame_body all) (map (nominal t) [0..<n]) st"
proof (rule frame_loop.raw_induct[OF _ assms])
  fix loop all e t st st'
  assume IH: "\<And>all e t st st'. loop all e t st = Some st' \<Longrightarrow>
                \<exists>n. (\<forall>k<n. nominal t k \<le> e) \<and> e < nominal t n
                  \<and> st' = fold (frame_body all) (map (nominal t) [0..<n]) st"
    and step: "(if t \<le> e then loop all e (js_add t FRAME_STEP) (frame_body all t st) else Some st) = Some st'"
  show "\<exists>n. (\<forall>k<n. nominal t k \<le> e) \<and> e < nominal t n
             \<and> st' = fold (frame_body all) (map (nominal t) [0..<n]) st"
  proof (cases "t \<le> e")
    case False
    then have "st' = st" using step by simp
    with False show ?thesis by (intro exI[of _ 0]) simp
  next
    case True
    then have "loop all e (js_add t FRAME_STEP) (frame_body all t st) = Some st'"
      using step by simp
    from IH[OF this] obtain n where n: "\<forall>k<n. nominal (js_add t FRAME_STEP) k \<le> e"
      "e < nominal (js_add t FRAME_STEP) n"
      "st' = fold (frame_body all) (map (nominal (js_add t FRAME_STEP)) [0..<n]) (frame_body all t st)"
      by blast
    have m: "map (nominal t) [0..<Suc n] = t # map (nominal (js_add t FRAME_STEP)) [0..<n]"
      by (simp add: upt_conv_Cons map_Suc_upt[symmetric] nominal_shift del: upt_Suc)
    have "\<forall>k<Suc n. nominal t k \<le> e"
      using n(1) True by (auto simp: nominal_shift less_Suc_eq_0_disj)
    moreover have "e < nominal t (Suc n)" using n(2) by (simp add: nominal_shift)
    moreover have "st' = fold (frame_body all) (map (nominal t) [0..<Suc n]) st"
      unfolding m using n(3) by simp
    ultimately show ?thesis by blast
  qed
qed

lemma nominal_exceeds_aux:
  assumes "0 \<le> t" "e < 2 ^ 43 - 34" "e - t < rat_of_nat m * 33"
  shows "\<exists>n. (\<forall>k<n. nominal t k \<le> e) \<and> e < nominal t n"
  using assms
proof (induction m arbitrary: t)
  case 0
  then have "e < nominal t 0" by simp
  then show ?case by (intro exI[of _ 0]) simp
next
  case (Suc m)
  show ?case
  proof (cases "t \<le> e")
    case False
    then show ?thesis by (intro exI[of _ 0]) simp
  next
    case True
    then have lt: "t < 2 ^ 43 - 34" using Suc.prems(2) by linarith
    note st = js_add_step[OF Suc.prems(1) lt]
    have "0 \<le> js_add t FRAME_STEP" using st(1) Suc.prems(1) by linarith
    moreover have "e - js_add t FRAME_STEP < rat_of_nat m * 33"
      using st(1) Suc.prems(3) by (simp add: algebra_simps)
    ultimately obtain n where n: "\<forall>k<n. nominal (js_add t FRAME_STEP) k \<le> e"
      "e < nominal (js_add t FRAME_STEP) n"
      using Suc.IH[OF _ Suc.prems(2)] by blast
    have "\<forall>k<Suc n. nominal t k \<le> e"
      using n(1) True by (auto simp: nominal_shift less_Suc_eq_0_disj)
    moreover have "e < nominal t (Suc n)" using n(2) by (simp add: nominal_shift)
    ultimately show ?thesis by blast
  qed
qed

lemma nominal_exceeds:
  assumes "0 \<le> t" "e < 2 ^ 43 - 34"
  shows "\<exists>n. (\<forall>k<n. nominal t k \<le> e) \<and> e < nominal t n"
proof -
  obtain m :: nat where "(e - t) / 33 < rat_of_nat m"
    using reals_Archimedean2 by blast
  then have "e - t < rat_of_nat m * 33" by (simp add: field_simps)
  from nominal_exceeds_aux[OF assms this] show ?thesis .
qed

lemma nominal_bounds:
  assumes "0 \<le> t" "\<forall>k<n. nominal t k \<le> e" "e < 2 ^ 43 - 34" "k \<le> n"
  shows "t + rat_of_nat k * (33329 / 1000) \<le> nominal t k
       \<and> nominal t k \<le> t + rat_of_nat k * (33331 / 1000)"
  using assms(4)
proof (induction k)
  case 0
  then show ?case by simp
next
  case (Suc k)
  then have IH: "t + rat_of_nat k * (33329 / 1000) \<le> nominal t k"
    "nominal t k \<le> t + rat_of_nat k * (33331 / 1000)" by simp_all
  have "nominal t k \<le> e" using Suc.prems assms(2) by simp
  then have lt: "nominal t k < 2 ^ 43 - 34" using assms(3) by linarith
  have nn: "0 \<le> nominal t k" using IH(1) assms(1) by (smt (verit) add_nonneg_nonneg of_nat_0_le_iff mult_nonneg_nonneg divide_nonneg_nonneg zero_le_numeral order_trans)
  note st = js_add_step[OF nn lt]
  have "rat_of_nat (Suc k) * (33329 / 1000) = rat_of_nat k * (33329 / 1000) + 33329 / 1000"
    "rat_of_nat (Suc k) * (33331 / 1000) = rat_of_nat k * (33331 / 1000) + 33331 / 1000"
    by (simp_all add: algebra_simps)
  then show ?case
    using st IH unfolding nominal_Suc by linarith
qed

lemma nominal_step:
  assumes "0 \<le> t" "\<forall>k<n. nominal t k \<le> e" "e < 2 ^ 43 - 34" "k < n"
  shows "nominal t k + 33329 / 1000 \<le> nominal t (Suc k)"
        "nominal t (Suc k) \<le> nominal t k + 33331 / 1000"
        "0 \<le> nominal t k"
proof -
  have b: "t + rat_of_nat k * (33329 / 1000) \<le> nominal t k"
    using nominal_bounds[OF assms(1-3), of k] assms(4) by simp
  have "0 \<le> rat_of_nat k * (33329 / 1000)" by simp
  with b assms(1) show nn: "0 \<le> nominal t k" by linarith
  have "nominal t k \<le> e" using assms(2,4) by simp
  then have lt: "nominal t k < 2 ^ 43 - 34" using assms(3) by linarith
  from js_add_step[OF nn lt]
  show "nominal t k + 33329 / 1000 \<le> nominal t (Suc k)"
        "nominal t (Suc k) \<le> nominal t k + 33331 / 1000"
    by (simp_all add: nominal_Suc)
qed

lemma Math_round_of_int [simp]: "Math_round (rat_of_int b) = b"
  by (simp add: Math_round_def) linarith

lemma Math_round_step:
  assumes "t + 33329 / 1000 \<le> t'" "t' \<le> t + 33331 / 1000"
  shows "Math_round t' - Math_round t = 33 \<or> Math_round t' - Math_round t = 34"
proof -
  have "\<lfloor>t + 1 / 2\<rfloor> + 33 = \<lfloor>t + 1 / 2 + 33\<rfloor>" "\<lfloor>t + 1 / 2\<rfloor> + 34 = \<lfloor>t + 1 / 2 + 34\<rfloor>"
    by linarith+
  moreover have "\<lfloor>t + 1 / 2 + 33\<rfloor> \<le> \<lfloor>t' + 1 / 2\<rfloor>" "\<lfloor>t' + 1 / 2\<rfloor> \<le> \<lfloor>t + 1 / 2 + 34\<rfloor>"
    using assms by (intro floor_mono; linarith)+
  ultimately show ?thesis
    unfolding Math_round_def by linarith
qed

lemma frame_body_fields:
  "historicalJointData (fst (frame_body all t st)) =
     (historicalJointData (fst st))
       (length (timestamps (fst st)) \<mapsto>
          frameJoints (jointTopics (fst st))
            (currentJoints (consume (jointTopics (fst st)) all t (snd st))))"
  "frameImageIndex (fst (frame_body all t st)) =
     (frameImageIndex (fst st))
       (length (timestamps (fst st)) \<mapsto>
          currentImageTimes (consume (jointTopics (fst st)) all t (snd st)))"
  "snd (frame_body all t st) = consume (jointTopics (fst st)) all t (snd st)"
  by (simp_all add: frame_body_def Let_def snapshotJointData_def)

lemma fold_frame_body:
  fixes st :: "BagService \<times> Scan"
  defines "jts \<equiv> jointTopics (fst st)" and "n0 \<equiv> length (timestamps (fst st))"
  shows "timestamps (fst (fold (frame_body all) ts st)) = timestamps (fst st) @ map Math_round ts
       \<and> jointTopics (fst (fold (frame_body all) ts st)) = jts
       \<and> snd (fold (frame_body all) ts st) = fold (consume jts all) ts (snd st)
       \<and> (\<forall>j<length ts.
             historicalJointData (fst (fold (frame_body all) ts st)) (n0 + j) =
               Some (frameJoints jts (currentJoints (fold (consume jts all) (take (Suc j) ts) (snd st))))
           \<and> frameImageIndex (fst (fold (frame_body all) ts st)) (n0 + j) =
               Some (currentImageTimes (fold (consume jts all) (take (Suc j) ts) (snd st))))
       \<and> (\<forall>i<n0. historicalJointData (fst (fold (frame_body all) ts st)) i = historicalJointData (fst st) i
           \<and> frameImageIndex (fst (fold (frame_body all) ts st)) i = frameImageIndex (fst st) i)"
proof (induction ts rule: rev_induct)
  case Nil
  then show ?case by (simp add: jts_def)
next
  case (snoc t ts)
  define st1 where "st1 = fold (frame_body all) ts st"
  have IH1: "timestamps (fst st1) = timestamps (fst st) @ map Math_round ts"
    and IH2: "jointTopics (fst st1) = jts"
    and IH3: "snd st1 = fold (consume jts all) ts (snd st)"
    and IH4: "\<And>j. j < length ts \<Longrightarrow>
             historicalJointData (fst st1) (n0 + j) =
               Some (frameJoints jts (currentJoints (fold (consume jts all) (take (Suc j) ts) (snd st))))
           \<and> frameImageIndex (fst st1) (n0 + j) =
               Some (currentImageTimes (fold (consume jts all) (take (Suc j) ts) (snd st)))"
    and IH5: "\<And>i. i < n0 \<Longrightarrow> historicalJointData (fst st1) i = historicalJointData (fst st) i
           \<and> frameImageIndex (fst st1) i = frameImageIndex (fst st) i"
    using snoc.IH unfolding st1_def by blast+
  have f: "fold (frame_body all) (ts @ [t]) st = frame_body all t st1"
    by (simp add: st1_def)
  have len1: "length (timestamps (fst st1)) = n0 + length ts"
    by (simp add: IH1 n0_def)
  have c1: "timestamps (fst (frame_body all t st1)) = timestamps (fst st) @ map Math_round (ts @ [t])"
    by (simp add: frame_body_keeps IH1)
  have c2: "jointTopics (fst (frame_body all t st1)) = jts"
    by (simp add: frame_body_keeps IH2)
  have c3: "snd (frame_body all t st1) = fold (consume jts all) (ts @ [t]) (snd st)"
    by (simp add: frame_body_fields IH2 IH3)
  have c4: "historicalJointData (fst (frame_body all t st1)) (n0 + j) =
               Some (frameJoints jts (currentJoints (fold (consume jts all) (take (Suc j) (ts @ [t])) (snd st))))
           \<and> frameImageIndex (fst (frame_body all t st1)) (n0 + j) =
               Some (currentImageTimes (fold (consume jts all) (take (Suc j) (ts @ [t])) (snd st)))"
    if "j < length (ts @ [t])" for j
  proof (cases "j < length ts")
    case True
    then show ?thesis
      using IH4[OF True] by (simp add: frame_body_fields len1)
  next
    case False
    with that have "j = length ts" by simp
    then show ?thesis
      by (simp add: frame_body_fields len1 IH2 IH3)
  qed
  have c5: "historicalJointData (fst (frame_body all t st1)) i = historicalJointData (fst st) i
           \<and> frameImageIndex (fst (frame_body all t st1)) i = frameImageIndex (fst st) i"
    if "i < n0" for i
    using IH5[OF that] that by (simp add: frame_body_fields len1)
  show ?case
    unfolding f using c1 c2 c3 c4 c5 by blast
qed

lemma fold_analyzeConnection_topics:
  "imageTopics (fold analyzeConnection cs s) = imageTopics s @ map conn_topic (filter isImageConn cs)"
  "jointTopics (fold analyzeConnection cs s) = jointTopics s @ map conn_topic (filter isJointConn cs)"
  "topicMetadata (fold analyzeConnection cs s) = fold metaOf cs (topicMetadata s)"
  by (induction cs arbitrary: s;
      simp add: analyzeConnection_def Let_def isImageConn_def isJointConn_def metaOf_def)+

lemma analyzeTopics_fresh:
  assumes "imageTopics s = []" "jointTopics s = []" "topicMetadata s = Map.empty"
  shows "imageTopics (analyzeTopics cs s) = imageTopics (analyzeTopics cs new_BagService)"
    "jointTopics (analyzeTopics cs s) = jointTopics (analyzeTopics cs new_BagService)"
    "topicMetadata (analyzeTopics cs s) = topicMetadata (analyzeTopics cs new_BagService)"
  using assms
  by (simp_all add: analyzeTopics_def Let_def fold_analyzeConnection_topics new_BagService_def)

lemma extractMessages_cong:
  "jointTopics s = jointTopics s' \<Longrightarrow> imageTopics s = imageTopics s'
     \<Longrightarrow> extractMessages file s = extractMessages file s'"
  by (simp add: extractMessages_def targetTopics_def)

lemma bootstrapping_cong:
  "jointTopics s = jointTopics s' \<Longrightarrow> imageTopics s = imageTopics s'
     \<Longrightarrow> bootstrapping s all = bootstrapping s' all"
  by (simp add: bootstrapping_def targetTopics_def)

lemma targetTopics_cong:
  "jointTopics s = jointTopics s' \<Longrightarrow> imageTopics s = imageTopics s'
     \<Longrightarrow> targetTopics s = targetTopics s'"
  by (simp add: targetTopics_def)

text \<open>The try block in terms of the file alone.\<close>

lemma loadBody_success_file:
  assumes "loadBody file (reset s1) = Some (Inr u, console, s')"
  defines "s3 \<equiv> analyzeTopics (connections file) ((reset s1)\<lparr>bag := Some file\<rparr>)"
  shows "opens file" "readable file" "targetTopics (classified file) \<noteq> []"
    "fileMessages file \<noteq> []"
    "console = fst (snd (bootstrapping (classified file) (fileMessages file)))"
    "generateFrames (fileMessages file) (fst (bootstrapping (classified file) (fileMessages file)))
        (snd (snd (bootstrapping (classified file) (fileMessages file)))) s3 = Some s'"
    "jointTopics s3 = jointTopics (classified file)"
    "imageTopics s3 = imageTopics (classified file)"
    "topicMetadata s3 = topicMetadata (classified file)"
    "timestamps s3 = []" "bag s3 = Some file" "frameCache s3 = []" "cv s3 = cv s1"
proof -
  have fresh: "imageTopics ((reset s1)\<lparr>bag := Some file\<rparr>) = []"
    "jointTopics ((reset s1)\<lparr>bag := Some file\<rparr>) = []"
    "topicMetadata ((reset s1)\<lparr>bag := Some file\<rparr>) = Map.empty"
    by (simp_all add: reset_def)
  show j: "jointTopics s3 = jointTopics (classified file)"
    and i: "imageTopics s3 = imageTopics (classified file)"
    and "topicMetadata s3 = topicMetadata (classified file)"
    unfolding s3_def classified_def using analyzeTopics_fresh[OF fresh] by simp_all
  note ex = extractMessages_cong[OF j i] and bo = bootstrapping_cong[OF j i]
    and tt = targetTopics_cong[OF j i]
  note L = loadBody_success[OF assms(1), unfolded Let_def, folded s3_def]
  show "opens file" "readable file" using L by simp_all
  show "targetTopics (classified file) \<noteq> []" using L tt by simp
  have nonempty: "extractMessages file (classified file) \<noteq> []" using L ex by simp
  then show "fileMessages file \<noteq> []"
    unfolding fileMessages_def by (metis length_sort length_0_conv)
  show "console = fst (snd (bootstrapping (classified file) (fileMessages file)))"
    using L by (simp add: fileMessages_def ex bo)
  show "generateFrames (fileMessages file) (fst (bootstrapping (classified file) (fileMessages file)))
        (snd (snd (bootstrapping (classified file) (fileMessages file)))) s3 = Some s'"
    using L by (simp add: fileMessages_def ex bo)
  show "timestamps s3 = []" "bag s3 = Some file" "frameCache s3 = []" "cv s3 = cv s1"
    by (simp_all add: s3_def analyzeTopics_keeps reset_def)
qed

lemma loadFile_success_body:
  assumes "loadFile cv_loads file s_prev = Some (Inr u, console, s)"
  obtains s1 where "init cv_loads s_prev = Inr s1" "cv s1"
    "loadBody file (reset s1) = Some (Inr u, console, s)"
proof -
  obtain s1 where s1: "init cv_loads s_prev = Inr s1"
    using assms by (cases "init cv_loads s_prev") (auto simp: loadFile_def)
  have "cv s1" using s1 by (auto simp: init_def split: if_splits)
  moreover have "loadBody file (reset s1) = Some (Inr u, console, s)"
    using assms s1 by (simp add: loadFile_def)
  ultimately show ?thesis using that s1 by blast
qed

lemma take_map_upt: "j < n \<Longrightarrow> take (Suc j) (map f [0..<n]) = map f [0..<Suc j]"
  by (simp add: take_map del: upt_Suc)

lemma loadFile_frames:
  assumes "loadFile cv_loads file s_prev = Some (Inr u, console, s)"
  defines "b \<equiv> rat_of_int (bootstrapTime file)"
    and "e \<equiv> rat_of_int (lastMessageTime file)"
    and "jts \<equiv> jointTopics (classified file)"
    and "all \<equiv> fileMessages file"
  obtains n where "\<forall>k<n. nominal b k \<le> e" "e < nominal b n"
    "timestamps s = map (\<lambda>k. Math_round (nominal b k)) [0..<n]"
    "\<And>j. j < n \<Longrightarrow> historicalJointData s j =
        Some (frameJoints jts (currentJoints
               (fold (consume jts all) (map (nominal b) [0..<Suc j]) (bootstrapScan file))))"
    "\<And>j. j < n \<Longrightarrow> frameImageIndex s j =
        Some (currentImageTimes
               (fold (consume jts all) (map (nominal b) [0..<Suc j]) (bootstrapScan file)))"
proof -
  obtain s1 where body: "loadBody file (reset s1) = Some (Inr u, console, s)"
    using loadFile_success_body[OF assms(1)] by blast
  define s3 where "s3 = analyzeTopics (connections file) ((reset s1)\<lparr>bag := Some file\<rparr>)"
  note F = loadBody_success_file[OF body, folded s3_def]
  from F(6) obtain st' where loop: "frame_loop all e b (s3, bootstrapScan file) = Some st'"
    and s: "s = fst st'"
    unfolding generateFrames_def Let_def all_def e_def b_def lastMessageTime_def
      bootstrapTime_def bootstrapScan_def
    by auto
  from frame_loop_frames[OF loop] obtain n where n: "\<forall>k<n. nominal b k \<le> e" "e < nominal b n"
    "st' = fold (frame_body all) (map (nominal b) [0..<n]) (s3, bootstrapScan file)"
    by blast
  note C = fold_frame_body[of all "map (nominal b) [0..<n]" "(s3, bootstrapScan file)",
      folded n(3), simplified, unfolded F(7) F(10)]
  have ts: "timestamps s = map (\<lambda>k. Math_round (nominal b k)) [0..<n]"
    using C by (simp add: s comp_def)
  have hj: "historicalJointData s j =
        Some (frameJoints jts (currentJoints
               (fold (consume jts all) (map (nominal b) [0..<Suc j]) (bootstrapScan file))))"
    and fi: "frameImageIndex s j =
        Some (currentImageTimes
               (fold (consume jts all) (map (nominal b) [0..<Suc j]) (bootstrapScan file)))"
    if "j < n" for j
    using C that by (simp_all add: s jts_def take_map_upt del: upt_Suc)
  show ?thesis using that[OF n(1,2) ts hj fi] .
qed

lemma updateCurrent_cursor [simp]: "msgCursor (updateCurrent jts m sc) = msgCursor sc"
  by (simp add: updateCurrent_def)



lemma fold_updateCurrent_cursor [simp]:
  "msgCursor (fold (updateCurrent jts) ms sc) = msgCursor sc"
  by (induction ms arbitrary: sc) simp_all








lemma bootstrap_char:
  "\<not> set tg \<subseteq> seen \<Longrightarrow>
   (fst (bootstrap jts tg all i seen sc) = None \<longrightarrow>
      snd (bootstrap jts tg all i seen sc) = fold (updateCurrent jts) (drop i all) sc
      \<and> \<not> set tg \<subseteq> seen \<union> topic ` set (drop i all))
   \<and> (\<forall>t. fst (bootstrap jts tg all i seen sc) = Some t \<longrightarrow>
        (\<exists>k. i \<le> k \<and> k < length all \<and> t = timestamp (all ! k)
           \<and> snd (bootstrap jts tg all i seen sc) =
               (fold (updateCurrent jts) (take (Suc k - i) (drop i all)) sc)\<lparr>msgCursor := k\<rparr>
           \<and> set tg \<subseteq> seen \<union> topic ` set (take (Suc k - i) (drop i all))))"
proof (induction jts tg all i seen sc rule: bootstrap.induct)
  case (1 jts tg all i seen sc)
  show ?case
  proof (cases "i < length all")
    case False
    then show ?thesis
      using 1(2) by (subst (1 2 3 4) bootstrap.simps) simp
  next
    case lt: True
    define msg where "msg = all ! i"
    define seen' where "seen' = insert (topic msg) seen"
    define sc1 where "sc1 = updateCurrent jts msg sc"
    have d: "drop i all = msg # drop (Suc i) all"
      using lt by (simp add: Cons_nth_drop_Suc msg_def)
    show ?thesis
    proof (cases "list_all (\<lambda>t. t \<in> seen') tg")
      case True
      have b: "bootstrap jts tg all i seen sc = (Some (timestamp msg), sc1\<lparr>msgCursor := i\<rparr>)"
        using lt True by (subst bootstrap.simps) (simp add: Let_def msg_def seen'_def sc1_def)
      have "set tg \<subseteq> seen \<union> topic ` set (take (Suc i - i) (drop i all))"
        using True by (auto simp: d seen'_def list_all_iff)
      moreover have "sc1\<lparr>msgCursor := i\<rparr> =
          (fold (updateCurrent jts) (take (Suc i - i) (drop i all)) sc)\<lparr>msgCursor := i\<rparr>"
        by (simp add: d sc1_def)
      ultimately have "\<exists>k. i \<le> k \<and> k < length all \<and> timestamp msg = timestamp (all ! k)
           \<and> sc1\<lparr>msgCursor := i\<rparr> =
               (fold (updateCurrent jts) (take (Suc k - i) (drop i all)) sc)\<lparr>msgCursor := k\<rparr>
           \<and> set tg \<subseteq> seen \<union> topic ` set (take (Suc k - i) (drop i all))"
        using lt by (intro exI[of _ i]) (simp add: msg_def)
      then show ?thesis
        unfolding b by simp
    next
      case False
      have b: "bootstrap jts tg all i seen sc = bootstrap jts tg all (Suc i) seen' sc1"
        using lt False by (subst bootstrap.simps) (simp add: Let_def msg_def seen'_def sc1_def)
      have "\<not> set tg \<subseteq> seen'" using False by (auto simp: list_all_iff)
      note IH = 1(1)[OF lt msg_def seen'_def sc1_def False this]
      have u: "seen' \<union> topic ` set (drop (Suc i) all) = seen \<union> topic ` set (drop i all)"
        by (auto simp: d seen'_def)
      have n: "fst (bootstrap jts tg all (Suc i) seen' sc1) = None \<longrightarrow>
          snd (bootstrap jts tg all (Suc i) seen' sc1) = fold (updateCurrent jts) (drop i all) sc
          \<and> \<not> set tg \<subseteq> seen \<union> topic ` set (drop i all)"
        using IH u by (simp add: d sc1_def)
      have s: "\<exists>k. i \<le> k \<and> k < length all \<and> t = timestamp (all ! k)
           \<and> snd (bootstrap jts tg all (Suc i) seen' sc1) =
               (fold (updateCurrent jts) (take (Suc k - i) (drop i all)) sc)\<lparr>msgCursor := k\<rparr>
           \<and> set tg \<subseteq> seen \<union> topic ` set (take (Suc k - i) (drop i all))"
        if "fst (bootstrap jts tg all (Suc i) seen' sc1) = Some t" for t
      proof -
        from IH that obtain k where k: "Suc i \<le> k" "k < length all" "t = timestamp (all ! k)"
          "snd (bootstrap jts tg all (Suc i) seen' sc1) =
             (fold (updateCurrent jts) (take (Suc k - Suc i) (drop (Suc i) all)) sc1)\<lparr>msgCursor := k\<rparr>"
          "set tg \<subseteq> seen' \<union> topic ` set (take (Suc k - Suc i) (drop (Suc i) all))"
          by blast
        have t: "take (Suc k - i) (drop i all) = msg # take (Suc k - Suc i) (drop (Suc i) all)"
          using k(1) by (simp add: d Suc_diff_le)
        have "set tg \<subseteq> seen \<union> topic ` set (take (Suc k - i) (drop i all))"
          using k(5) unfolding t by (auto simp: seen'_def)
        moreover have "snd (bootstrap jts tg all (Suc i) seen' sc1) =
               (fold (updateCurrent jts) (take (Suc k - i) (drop i all)) sc)\<lparr>msgCursor := k\<rparr>"
          unfolding t k(4) by (simp add: sc1_def)
        ultimately show ?thesis using k(1,2,3) by (intro exI[of _ k]) simp
      qed
      show ?thesis unfolding b using n s by blast
    qed
  qed
qed

lemma sorted_fileMessages: "sorted (map timestamp (fileMessages file))"
  by (simp add: fileMessages_def)

lemma Math_round_millis: "Math_round (rat_of_nat n / 1000000) = int ((n + 500000) div 1000000)"
proof -
  have "rat_of_nat n / 1000000 + 1 / 2 = rat_of_nat (n + 500000) / rat_of_nat 1000000"
    by (simp add: field_simps)
  then show ?thesis
    unfolding Math_round_def by (simp only: floor_divide_of_nat_eq)
qed

lemma timeToMs_nat: "timeToMs t = int (sec t * 1000 + (nsec t + 500000) div 1000000)"
  by (simp add: timeToMs_def Math_round_millis)

lemma timeToMs_range:
  assumes "sec t < 2 ^ 32" "nsec t < 2 ^ 32"
  shows "0 \<le> timeToMs t" "timeToMs t < 2 ^ 42"
proof -
  show "0 \<le> timeToMs t" by (simp add: timeToMs_nat)
  have "(nsec t + 500000) div 1000000 \<le> 4295"
    using assms(2) by simp
  moreover have "sec t * 1000 \<le> 4294967295 * 1000"
    using assms(1) by simp
  ultimately have "sec t * 1000 + (nsec t + 500000) div 1000000 < 2 ^ 42"
    by simp
  then show "timeToMs t < 2 ^ 42"
    unfolding timeToMs_nat by (metis of_nat_less_iff of_nat_numeral of_nat_power)
qed

lemma fileMessages_range:
  assumes "ros_times file" "m \<in> set (fileMessages file)"
  shows "0 \<le> timestamp m" "timestamp m < 2 ^ 42"
proof -
  from assms(2) obtain bm where bm: "bm \<in> set (messages file)"
    "timestamp m = timeToMs (msg_timestamp bm)"
    by (auto simp: fileMessages_def extractMessages_def toLight_def)
  then have "sec (msg_timestamp bm) < 2 ^ 32" "nsec (msg_timestamp bm) < 2 ^ 32"
    using assms(1) by (auto simp: ros_times_def list_all_iff)
  from timeToMs_range[OF this] show "0 \<le> timestamp m" "timestamp m < 2 ^ 42"
    using bm(2) by simp_all
qed

lemma bootstrapping_covered:
  assumes "set (targetTopics s) \<subseteq> topic ` set all" "targetTopics s \<noteq> []"
  obtains k where "k < length all" "fst (bootstrapping s all) = timestamp (all ! k)"
    "fst (snd (bootstrapping s all)) = []"
    "snd (snd (bootstrapping s all)) =
       (fold (updateCurrent (jointTopics s)) (take (Suc k) all) scan0)\<lparr>msgCursor := k\<rparr>"
proof -
  define r where "r = bootstrap (jointTopics s) (targetTopics s) all 0 {} scan0"
  have ne: "\<not> set (targetTopics s) \<subseteq> {}" using assms(2) by simp
  note C = bootstrap_char[OF ne, of "jointTopics s" all 0 scan0, folded r_def]
  have "fst r \<noteq> None" using C assms(1) by auto
  then obtain t where t: "fst r = Some t" by auto
  with C obtain k where k: "k < length all" "t = timestamp (all ! k)"
    "snd r = (fold (updateCurrent (jointTopics s)) (take (Suc k) all) scan0)\<lparr>msgCursor := k\<rparr>"
    by auto
  have "bootstrapping s all = (t, [], snd r)"
    using t by (simp add: bootstrapping_def Let_def r_def scan0_def)
  then show ?thesis using that[of k] k by simp
qed

lemma bootstrapping_degraded:
  assumes "\<not> set (targetTopics s) \<subseteq> topic ` set all"
  shows "fst (bootstrapping s all) = timestamp (all ! 0)"
    "fst (snd (bootstrapping s all)) = [ConsoleWarn INCOMPLETE_BAG]"
    "snd (snd (bootstrapping s all)) =
       (fold (updateCurrent (jointTopics s)) all scan0)\<lparr>msgCursor := 0\<rparr>"
proof -
  define r where "r = bootstrap (jointTopics s) (targetTopics s) all 0 {} scan0"
  have ne: "\<not> set (targetTopics s) \<subseteq> {}" using assms by auto
  note C = bootstrap_char[OF ne, of "jointTopics s" all 0 scan0, folded r_def]
  have n: "fst r = None"
  proof (cases "fst r")
    case (Some t)
    with C obtain k where "set (targetTopics s) \<subseteq> {} \<union> topic ` set (take (Suc k - 0) (drop 0 all))"
      by blast
    then have "set (targetTopics s) \<subseteq> topic ` set all"
      by (auto dest: in_set_takeD)
    with assms show ?thesis by simp
  qed simp
  with C have sr: "snd r = fold (updateCurrent (jointTopics s)) all scan0" by simp
  have "bootstrapping s all = (timestamp (all ! 0), [ConsoleWarn INCOMPLETE_BAG], (snd r)\<lparr>msgCursor := 0\<rparr>)"
    using n by (simp add: bootstrapping_def Let_def r_def scan0_def)
  then show "fst (bootstrapping s all) = timestamp (all ! 0)"
    "fst (snd (bootstrapping s all)) = [ConsoleWarn INCOMPLETE_BAG]"
    "snd (snd (bootstrapping s all)) =
       (fold (updateCurrent (jointTopics s)) all scan0)\<lparr>msgCursor := 0\<rparr>"
    using sr by simp_all
qed

text \<open>In both cases the bootstrap time is the timestamp of the message at the start cursor.\<close>

lemma bootstrap_cursor:
  assumes "fileMessages file \<noteq> []" "targetTopics (classified file) \<noteq> []"
  shows "msgCursor (bootstrapScan file) < length (fileMessages file)
       \<and> bootstrapTime file = timestamp (fileMessages file ! msgCursor (bootstrapScan file))"
proof (cases "set (targetTopics (classified file)) \<subseteq> topic ` set (fileMessages file)")
  case True
  from bootstrapping_covered[OF True assms(2)] show ?thesis
    unfolding bootstrapTime_def bootstrapScan_def by (metis Scan.select_convs(1) Scan.surjective Scan.update_convs(1))
next
  case False
  from bootstrapping_degraded[OF False] show ?thesis
    using assms(1) unfolding bootstrapTime_def bootstrapScan_def by simp
qed

lemma lastMessageTime_last:
  "fileMessages file \<noteq> [] \<Longrightarrow> lastMessageTime file = timestamp (last (fileMessages file))"
  by (simp add: lastMessageTime_def last_conv_nth)

lemma bootstrap_le_last:
  assumes "fileMessages file \<noteq> []" "targetTopics (classified file) \<noteq> []"
  shows "bootstrapTime file \<le> lastMessageTime file"
proof -
  let ?all = "fileMessages file"
  let ?k = "msgCursor (bootstrapScan file)"
  have k: "?k < length ?all" "bootstrapTime file = timestamp (?all ! ?k)"
    using bootstrap_cursor[OF assms] by simp_all
  have "map timestamp ?all ! ?k \<le> map timestamp ?all ! (length ?all - 1)"
    using k(1) by (intro sorted_nth_mono[OF sorted_fileMessages]) simp_all
  then show ?thesis
    using k by (simp add: lastMessageTime_def)
qed

lemma bootstrap_range:
  assumes "fileMessages file \<noteq> []" "targetTopics (classified file) \<noteq> []" "ros_times file"
  shows "0 \<le> bootstrapTime file" "lastMessageTime file < 2 ^ 42"
proof -
  have "fileMessages file ! msgCursor (bootstrapScan file) \<in> set (fileMessages file)"
    using bootstrap_cursor[OF assms(1,2)] by simp
  from fileMessages_range(1)[OF assms(3) this] show "0 \<le> bootstrapTime file"
    using bootstrap_cursor[OF assms(1,2)] by simp
  have "last (fileMessages file) \<in> set (fileMessages file)"
    using assms(1) by simp
  from fileMessages_range(2)[OF assms(3) this] show "lastMessageTime file < 2 ^ 42"
    using assms(1) by (simp add: lastMessageTime_last)
qed

lemma rat_range:
  assumes "0 \<le> (b::int)" "e < 2 ^ 42"
  shows "0 \<le> rat_of_int b" "rat_of_int e < 2 ^ 43 - 34"
proof -
  show "0 \<le> rat_of_int b" using assms(1) by simp
  have "e < 2 ^ 43 - 34" using assms(2) by simp
  then have "rat_of_int e < rat_of_int (2 ^ 43 - 34)" by (simp only: of_int_less_iff)
  then show "rat_of_int e < 2 ^ 43 - 34" by simp
qed

lemma generateFrames_total:
  assumes "0 \<le> t0" "timestamp (all ! (length all - 1)) < 2 ^ 42"
  shows "\<exists>s'. generateFrames all t0 sc s = Some s'"
proof -
  note r = rat_range[OF assms]
  from nominal_exceeds[OF r] obtain n where
    "\<forall>k<n. nominal (rat_of_int t0) k \<le> rat_of_int (timestamp (all ! (length all - 1)))"
    "rat_of_int (timestamp (all ! (length all - 1))) < nominal (rat_of_int t0) n"
    by blast
  from frame_loop_unroll[OF this] show ?thesis
    by (simp add: generateFrames_def Let_def)
qed

lemma loadFile_succeeds:
  assumes "cv s \<or> cv_loads" "opens file" "readable file" "targetTopics (classified file) \<noteq> []"
    "fileMessages file \<noteq> []" "ros_times file"
  shows "\<exists>s'. loadFile cv_loads file s =
           Some (Inr (), fst (snd (bootstrapping (classified file) (fileMessages file))), s')"
proof -
  have "\<exists>s1. init cv_loads s = Inr s1"
    using assms(1) by (cases "cv s") (simp_all add: init_def)
  then obtain s1 where s1: "init cv_loads s = Inr s1" by blast
  define s3 where "s3 = analyzeTopics (connections file) ((reset s1)\<lparr>bag := Some file\<rparr>)"
  have fresh: "imageTopics ((reset s1)\<lparr>bag := Some file\<rparr>) = []"
    "jointTopics ((reset s1)\<lparr>bag := Some file\<rparr>) = []"
    "topicMetadata ((reset s1)\<lparr>bag := Some file\<rparr>) = Map.empty"
    by (simp_all add: reset_def)
  have j: "jointTopics s3 = jointTopics (classified file)"
    and i: "imageTopics s3 = imageTopics (classified file)"
    unfolding s3_def classified_def using analyzeTopics_fresh[OF fresh] by simp_all
  note ex = extractMessages_cong[OF j i] and bo = bootstrapping_cong[OF j i]
    and tt = targetTopics_cong[OF j i]
  have ne: "extractMessages file s3 \<noteq> []"
    using assms(5) by (auto simp: fileMessages_def ex)
  have all: "sort_key timestamp (extractMessages file s3) = fileMessages file"
    by (simp add: fileMessages_def ex)
  have body: "loadBody file (reset s1) =
      map_option (\<lambda>s. (Inr (), fst (snd (bootstrapping (classified file) (fileMessages file))), s))
        (generateFrames (fileMessages file) (bootstrapTime file) (bootstrapScan file) s3)"
    using assms(2,3,4) ne
    by (simp add: loadBody_def Let_def tt all bo bootstrapTime_def bootstrapScan_def flip: s3_def)
  note rg = bootstrap_range[OF assms(5,4,6)]
  from generateFrames_total[OF rg(1) rg(2)[unfolded lastMessageTime_def]]
  obtain s' where "generateFrames (fileMessages file) (bootstrapTime file) (bootstrapScan file) s3 = Some s'"
    by blast
  then show ?thesis
    using s1 body by (simp add: loadFile_def)
qed

text \<open>The timeline of a successfully loaded bag with ROS timestamps.\<close>

lemma loadFile_timeline:
  assumes "loadFile cv_loads file s_prev = Some (Inr u, console, s)" "ros_times file"
  defines "b \<equiv> rat_of_int (bootstrapTime file)" and "e \<equiv> rat_of_int (lastMessageTime file)"
  obtains n where "0 < n" "\<forall>k<n. nominal b k \<le> e" "e < nominal b n"
    "timestamps s = map (\<lambda>k. Math_round (nominal b k)) [0..<n]"
    "\<And>k. k < n \<Longrightarrow> nominal b k + 33329 / 1000 \<le> nominal b (Suc k)
                   \<and> nominal b (Suc k) \<le> nominal b k + 33331 / 1000 \<and> 0 \<le> nominal b k"
    "\<And>k. k \<le> n \<Longrightarrow> b + rat_of_nat k * (33329 / 1000) \<le> nominal b k
                   \<and> nominal b k \<le> b + rat_of_nat k * (33331 / 1000)"
proof -
  obtain s1 where body: "loadBody file (reset s1) = Some (Inr u, console, s)"
    using loadFile_success_body[OF assms(1)] by blast
  note F = loadBody_success_file[OF body]
  note rg = bootstrap_range[OF F(4,3) assms(2)]
  note r = rat_range[OF rg, folded b_def e_def]
  obtain n where n: "\<forall>k<n. nominal b k \<le> e" "e < nominal b n"
    "timestamps s = map (\<lambda>k. Math_round (nominal b k)) [0..<n]"
    using loadFile_frames[OF assms(1), folded b_def e_def] by metis
  have "b \<le> e" using bootstrap_le_last[OF F(4,3)] by (simp add: b_def e_def)
  then have pos: "0 < n" using n(2) by (cases n) auto
  have st: "nominal b k + 33329 / 1000 \<le> nominal b (Suc k)
                   \<and> nominal b (Suc k) \<le> nominal b k + 33331 / 1000 \<and> 0 \<le> nominal b k"
    if "k < n" for k
    using nominal_step[OF r(1) n(1) r(2) that] by simp
  have bd: "b + rat_of_nat k * (33329 / 1000) \<le> nominal b k
                   \<and> nominal b k \<le> b + rat_of_nat k * (33331 / 1000)"
    if "k \<le> n" for k
    using nominal_bounds[OF r(1) n(1) r(2) that] by simp
  show ?thesis using that[OF pos n st bd] .
qed

lemma serve_append: "serve (cs @ ds) s = serve ds (serve cs s)"
  by (induction cs arbitrary: s) simp_all

lemma getFrameAt_result:
  assumes "bag s \<noteq> None" "cache_ok s"
  shows "(fst (getFrameAt io i s) = None \<longleftrightarrow> i < 0 \<or> int (length (timestamps s)) \<le> i)
       \<and> (0 \<le> i \<and> i < int (length (timestamps s)) \<longrightarrow>
            (\<exists>f. fst (getFrameAt io i s) = Some f \<and> frame_timestamp f = timestamps s ! nat i))"
proof (cases "i < 0 \<or> int (length (timestamps s)) \<le> i")
  case True
  then show ?thesis by (auto simp: getFrameAt_out_of_range)
next
  case False
  then have r: "0 \<le> i" "i < int (length (timestamps s))" by auto
  show ?thesis
  proof (cases "map_of (frameCache s) (timestamps s ! nat i)")
    case None
    have d: "distinct (map fst (frameCache s))" using assms(2) by (simp add: cache_ok_def)
    show ?thesis
      using r by (simp add: getFrameAt_miss_cache[OF assms(1) r None d] materialize_def)
  next
    case (Some f)
    then have "(timestamps s ! nat i, f) \<in> set (frameCache s)" by (rule map_of_SomeD)
    then have "frame_timestamp f = timestamps s ! nat i"
      using assms(2) by (auto simp: cache_ok_def)
    then show ?thesis
      using r by (simp add: getFrameAt_hit[OF assms(1) r Some])
  qed
qed

lemma scenario_fields:
  "opens scenario_bag" "readable scenario_bag"
  "messages scenario_bag = [state_at 0 [0, 0, 0], cam_at 0 [1], cam_at 40000000 [2],
                  state_at 50000000 [1, 1, 1], state_at 67000000 [2, 2, 2]]"
  by (simp_all add: scenario_bag_def)

lemma scenario_classified:
  "jointTopics (classified scenario_bag) = [''/state'']"
  "imageTopics (classified scenario_bag) = [''/cam'']"
  "targetTopics (classified scenario_bag) = [''/cam'', ''/state'']"
  by (simp_all add: classified_def analyzeTopics_def analyzeConnection_def scenario_bag_def
      new_BagService_def targetTopics_def Let_def)

lemma scenario_messages:
  "fileMessages scenario_bag =
     [light 0 (state_at 0 [0, 0, 0]) True, light 0 (cam_at 0 [1]) False,
      light 40 (cam_at 40000000 [2]) False, light 50 (state_at 50000000 [1, 1, 1]) True,
      light 67 (state_at 67000000 [2, 2, 2]) True]"
  by (simp add: fileMessages_def extractMessages_def scenario_classified toLight_def timeToMs_nat
      scenario_fields state_at_def cam_at_def light_def)

lemma scenario_boot:
  "bootstrapTime scenario_bag = 0"
  "lastMessageTime scenario_bag = 67"
  "msgCursor (bootstrapScan scenario_bag) = 1"
  "fst (snd (bootstrapping (classified scenario_bag) (fileMessages scenario_bag))) = []"
  by (simp_all add: bootstrapTime_def lastMessageTime_def bootstrapScan_def bootstrapping_def
      scenario_messages scenario_classified bootstrap.simps Let_def light_def updateCurrent_def
      state_at_def cam_at_def)

lemmas binades = double_round_binade[where n=6] double_round_binade[where n=7]
  double_round_binade[where n=8]

lemma nominal_from_0:
  "nominal 0 (Suc 0) = 2345390243441541 / 70368744177664"
  "nominal 0 (Suc (Suc 0)) = 2345390243441541 / 35184372088832"
  "nominal 0 (Suc (Suc (Suc 0))) = 7036170730324623 / 70368744177664"
  by (simp_all add: nominal_Suc js_add_def FRAME_STEP_def binades round_even_def pow2_def
      floor_rat_numeral Let_def)

lemma scenario_ros: "ros_times scenario_bag"
  by (simp add: ros_times_def scenario_fields state_at_def cam_at_def)

lemma scenario_load:
  "loadFile True scenario_bag new_BagService = Some (Inr (), [], scenario_loaded)"
proof -
  have "targetTopics (classified scenario_bag) \<noteq> []" "fileMessages scenario_bag \<noteq> []"
    by (simp_all add: scenario_classified scenario_messages)
  from loadFile_succeeds[OF _ scenario_fields(1,2) this scenario_ros, of new_BagService True]
  obtain s' where "loadFile True scenario_bag new_BagService = Some (Inr (), [], s')"
    unfolding scenario_boot(4) by auto
  then show ?thesis
    by (simp add: scenario_loaded_def state_of_def)
qed

lemma frames_unique:
  assumes "\<forall>k<n. nominal b k \<le> e" "e < nominal b n" "\<forall>k<n'. nominal b k \<le> e" "e < nominal b n'"
  shows "n = n'"
proof (rule ccontr)
  assume "n \<noteq> n'"
  then consider "n < n'" | "n' < n" by linarith
  then show False
  proof cases
    case 1
    then show False using assms(2,3) by force
  next
    case 2
    then show False using assms(1,4) by force
  qed
qed

lemma loadFile_frames_n:
  assumes "loadFile cv_loads file s_prev = Some (Inr u, console, s)"
    "\<forall>k<n. nominal (rat_of_int (bootstrapTime file)) k \<le> rat_of_int (lastMessageTime file)"
    "rat_of_int (lastMessageTime file) < nominal (rat_of_int (bootstrapTime file)) n"
  shows "timestamps s = map (\<lambda>k. Math_round (nominal (rat_of_int (bootstrapTime file)) k)) [0..<n]"
    "\<And>j. j < n \<Longrightarrow> historicalJointData s j =
        Some (frameJoints (jointTopics (classified file)) (currentJoints
               (fold (consume (jointTopics (classified file)) (fileMessages file))
                  (map (nominal (rat_of_int (bootstrapTime file))) [0..<Suc j]) (bootstrapScan file))))"
    "\<And>j. j < n \<Longrightarrow> frameImageIndex s j =
        Some (currentImageTimes
               (fold (consume (jointTopics (classified file)) (fileMessages file))
                  (map (nominal (rat_of_int (bootstrapTime file))) [0..<Suc j]) (bootstrapScan file)))"
proof -
  obtain n' where n': "\<forall>k<n'. nominal (rat_of_int (bootstrapTime file)) k \<le> rat_of_int (lastMessageTime file)"
    "rat_of_int (lastMessageTime file) < nominal (rat_of_int (bootstrapTime file)) n'"
    "timestamps s = map (\<lambda>k. Math_round (nominal (rat_of_int (bootstrapTime file)) k)) [0..<n']"
    "\<And>j. j < n' \<Longrightarrow> historicalJointData s j =
        Some (frameJoints (jointTopics (classified file)) (currentJoints
               (fold (consume (jointTopics (classified file)) (fileMessages file))
                  (map (nominal (rat_of_int (bootstrapTime file))) [0..<Suc j]) (bootstrapScan file))))"
    "\<And>j. j < n' \<Longrightarrow> frameImageIndex s j =
        Some (currentImageTimes
               (fold (consume (jointTopics (classified file)) (fileMessages file))
                  (map (nominal (rat_of_int (bootstrapTime file))) [0..<Suc j]) (bootstrapScan file)))"
    using loadFile_frames[OF assms(1)] by metis
  have eq: "n' = n" using frames_unique[OF n'(1,2) assms(2,3)] .
  show "timestamps s = map (\<lambda>k. Math_round (nominal (rat_of_int (bootstrapTime file)) k)) [0..<n]"
    using n'(3) eq by simp
  show "\<And>j. j < n \<Longrightarrow> historicalJointData s j =
        Some (frameJoints (jointTopics (classified file)) (currentJoints
               (fold (consume (jointTopics (classified file)) (fileMessages file))
                  (map (nominal (rat_of_int (bootstrapTime file))) [0..<Suc j]) (bootstrapScan file))))"
    using n'(4) eq by simp
  show "\<And>j. j < n \<Longrightarrow> frameImageIndex s j =
        Some (currentImageTimes
               (fold (consume (jointTopics (classified file)) (fileMessages file))
                  (map (nominal (rat_of_int (bootstrapTime file))) [0..<Suc j]) (bootstrapScan file)))"
    using n'(5) eq by simp
qed

lemma Math_round_0 [simp]: "Math_round 0 = 0"
  using Math_round_of_int[of 0] by simp

lemma scenario_timestamps: "timestamps scenario_loaded = [0, 33, 67]"
proof -
  have le: "\<forall>k<3. nominal (rat_of_int (bootstrapTime scenario_bag)) k \<le> rat_of_int (lastMessageTime scenario_bag)"
    by (simp add: scenario_boot less_Suc_eq numeral_3_eq_3 nominal_from_0)
  have gt: "rat_of_int (lastMessageTime scenario_bag) < nominal (rat_of_int (bootstrapTime scenario_bag)) 3"
    by (simp add: scenario_boot numeral_3_eq_3 nominal_from_0)
  show ?thesis
    unfolding loadFile_frames_n(1)[OF scenario_load le gt]
    by (simp add: scenario_boot numeral_3_eq_3 nominal_from_0 upt_rec)
       (simp add: Math_round_def floor_rat_numeral)
qed

section \<open>The claims\<close>

subsection \<open>Serving frames\<close>

lemma serve_snoc: "serve (cs @ [c]) s = snd (getFrameAt (fst c) (snd c) (serve cs s))"
  by (simp add: serve_append)

lemma scenario_served:
  "bag scenario_loaded = Some scenario_bag" "frameCache scenario_loaded = []" "cv scenario_loaded"
  using loadFile_success[OF scenario_load] by simp_all



text \<open>
  Claim C5.  After a successful load and any sequence of \<open>getFrameAt\<close> calls the frame
  cache holds at most 30 frames, under distinct keys.  A further call leaves the keys as
  they are when it is out of range or hits the cache (a hit does not move its entry); a
  miss appends its key, and when 30 entries were held it first drops the oldest-inserted
  one.
\<close>

theorem frameCache_bounded_fifo:
  fixes calls :: "(IO \<times> int) list" and s0 :: BagService
  assumes "loadFile cv_loads file s_prev = Some (Inr (), console, s0)"
  defines "s \<equiv> serve calls s0"
  defines "keys \<equiv> map fst (frameCache s)"
  shows "length (frameCache s) \<le> 30
       \<and> distinct keys
       \<and> map fst (frameCache (snd (getFrameAt io idx s))) =
           (if idx < 0 \<or> int (length (timestamps s)) \<le> idx \<or> timestamps s ! nat idx \<in> set keys
            then keys
            else if length keys < 30 then keys @ [timestamps s ! nat idx]
            else tl keys @ [timestamps s ! nat idx])"
proof -
  have b: "bag s \<noteq> None"
    using loadFile_success[OF assms(1)] by (simp add: s_def serve_keeps)
  have ok: "cache_ok s"
    unfolding s_def using cache_ok_loaded[OF assms(1)] by (rule cache_ok_serve)
  then have l: "length (frameCache s) \<le> 30" and d: "distinct keys"
    by (simp_all add: cache_ok_def keys_def)
  have "map fst (frameCache (snd (getFrameAt io idx s))) =
           (if idx < 0 \<or> int (length (timestamps s)) \<le> idx \<or> timestamps s ! nat idx \<in> set keys
            then keys
            else if length keys < 30 then keys @ [timestamps s ! nat idx]
            else tl keys @ [timestamps s ! nat idx])"
  proof (cases "idx < 0 \<or> int (length (timestamps s)) \<le> idx")
    case True
    then show ?thesis by (auto simp: getFrameAt_out_of_range keys_def)
  next
    case False
    then have r: "0 \<le> idx" "idx < int (length (timestamps s))" by auto
    show ?thesis
    proof (cases "map_of (frameCache s) (timestamps s ! nat idx)")
      case (Some f)
      then have "timestamps s ! nat idx \<in> set keys"
        unfolding keys_def by (metis map_of_eq_None_iff option.distinct(1) set_map)
      then show ?thesis
        using r by (simp add: getFrameAt_hit[OF b r Some] keys_def)
    next
      case None
      then have notin: "timestamps s ! nat idx \<notin> set keys"
        unfolding keys_def by (simp add: map_of_eq_None_iff)
      have ne: "length keys = 30 \<Longrightarrow> frameCache s \<noteq> []"
        by (auto simp: keys_def)
      show ?thesis
        using r notin ne l
        by (auto simp add: getFrameAt_miss_cache[OF b r None d[unfolded keys_def]] keys_def map_tl)
    qed
  qed
  with l d show ?thesis by simp
qed

theorem frameCache_bounded_fifo_witness:
  "loadFile True scenario_bag new_BagService = Some (Inr (), [], scenario_loaded)
   \<and> map fst (frameCache (serve [(scenario_io, 1), (scenario_io, 0), (scenario_io, 1)]
                  scenario_loaded)) = [33, 0]
   \<and> length (frameCache (serve [(scenario_io, 1), (scenario_io, 0), (scenario_io, 1)]
                  scenario_loaded)) \<le> 30"
proof -
  note T = frameCache_bounded_fifo[OF scenario_load]
  have k0: "map fst (frameCache (serve [] scenario_loaded)) = []"
    by (simp add: scenario_served)
  have k1: "map fst (frameCache (serve [(scenario_io, 1)] scenario_loaded)) = [33]"
    using T[of "[]" scenario_io 1] k0
      serve_snoc[of "[]" "(scenario_io, 1)" scenario_loaded]
    by (simp add: scenario_timestamps serve_keeps del: serve.simps)
  have k2: "map fst (frameCache (serve [(scenario_io, 1), (scenario_io, 0)] scenario_loaded)) = [33, 0]"
    using T[of "[(scenario_io, 1)]" scenario_io 0] k1
      serve_snoc[of "[(scenario_io, 1)]" "(scenario_io, 0)" scenario_loaded]
    by (simp add: scenario_timestamps serve_keeps del: serve.simps)
  have k3: "map fst (frameCache (serve [(scenario_io, 1), (scenario_io, 0), (scenario_io, 1)]
                  scenario_loaded)) = [33, 0]"
    using T[of "[(scenario_io, 1), (scenario_io, 0)]" scenario_io 1] k2
      serve_snoc[of "[(scenario_io, 1), (scenario_io, 0)]" "(scenario_io, 1)" scenario_loaded]
    by (simp add: scenario_timestamps serve_keeps del: serve.simps)
  show ?thesis
    using k3 scenario_load T[of "[(scenario_io, 1), (scenario_io, 0), (scenario_io, 1)]"]
    by (simp del: serve.simps)
qed

subsection \<open>Reloading\<close>

text \<open>
  Claim C10.  \<open>loadFile\<close> clears the prior state before it builds the new index: once the
  image library is initialised, a load from any state is the load from the reset state.
  After a load that fails in the \<^verbatim>\<open>try\<close> block (the source does not open, has no compatible
  topic, cannot be scanned, or has no message on a compatible topic) there is no
  timestamp, joint history, image index or cache entry, and \<open>getFrameAt\<close> returns \<^verbatim>\<open>null\<close>
  for every index.
\<close>

theorem failed_load_serves_nothing:
  "(cv s \<or> cv_loads \<longrightarrow> loadFile cv_loads file s = loadFile cv_loads file (reset s))
   \<and> (loadFile cv_loads file s = Some (Inl e, console, s') \<and> e \<noteq> InitError \<longrightarrow>
        timestamps s' = [] \<and> historicalJointData s' = Map.empty
        \<and> frameImageIndex s' = Map.empty \<and> frameCache s' = []
        \<and> getFrameAt io idx s' = (None, s'))"
proof -
  have "getFrameAt io idx s' = (None, s')" if "timestamps s' = []"
    using that by (cases "idx < 0") (simp_all add: getFrameAt_out_of_range)
  then show ?thesis
    using loadFile_reset[of s cv_loads "file"] loadFile_failed[of cv_loads "file" s e console s']
    by blast
qed

theorem failed_load_serves_nothing_witness:
  "(cv scenario_loaded \<or> True)
   \<and> fst (getFrameAt scenario_io 0 scenario_loaded) \<noteq> None
   \<and> loadFile True closed_bag scenario_loaded =
        Some (Inl OpenError, [ConsoleError OpenError], (reset scenario_loaded)\<lparr>bag := Some closed_bag\<rparr>)
   \<and> OpenError \<noteq> InitError
   \<and> getFrameAt scenario_io 0 ((reset scenario_loaded)\<lparr>bag := Some closed_bag\<rparr>) =
        (None, (reset scenario_loaded)\<lparr>bag := Some closed_bag\<rparr>)
   \<and> loadFile True closed_bag scenario_loaded = loadFile True closed_bag (reset scenario_loaded)"
proof -
  have l: "loadFile True closed_bag scenario_loaded =
        Some (Inl OpenError, [ConsoleError OpenError], (reset scenario_loaded)\<lparr>bag := Some closed_bag\<rparr>)"
    by (simp add: loadFile_def init_def scenario_served loadBody_def failed_def closed_bag_def)
  have f: "fst (getFrameAt scenario_io 0 scenario_loaded) \<noteq> None"
    using getFrameAt_result[of scenario_loaded scenario_io 0] cache_ok_loaded[OF scenario_load]
    by (simp add: scenario_served scenario_timestamps)
  show ?thesis
    using failed_load_serves_nothing[of scenario_loaded True closed_bag OpenError
        "[ConsoleError OpenError]" "(reset scenario_loaded)\<lparr>bag := Some closed_bag\<rparr>" scenario_io 0]
      l f scenario_served
    by simp
qed

lemma loadFile_first_frame:
  assumes "loadFile cv_loads file s_prev = Some (Inr u, console, s)" "ros_times file"
  shows "timestamps s \<noteq> []" "timestamps s ! 0 = bootstrapTime file"
proof -
  obtain n where n: "0 < n"
    "timestamps s = map (\<lambda>k. Math_round (nominal (rat_of_int (bootstrapTime file)) k)) [0..<n]"
    using loadFile_timeline[OF assms] by metis
  show "timestamps s \<noteq> []" using n by simp
  show "timestamps s ! 0 = bootstrapTime file" using n by simp
qed

text \<open>
  Claim C3.  For a successfully loaded bag whose message times are ROS times, the first
  frame timestamp is the bootstrap time, and from the second frame on each timestamp is at
  least its predecessor and differs from it by the 33.33 ms step to within 1 ms.
\<close>

theorem frame_timestamps_spacing:
  assumes "loadFile cv_loads file s_prev = Some (Inr (), console, s)" "ros_times file"
  shows "timestamps s \<noteq> []
       \<and> timestamps s ! 0 = bootstrapTime file
       \<and> (\<forall>i. 1 \<le> i \<and> i < length (timestamps s) \<longrightarrow>
             timestamps s ! (i - 1) \<le> timestamps s ! i
           \<and> \<bar>rat_of_int (timestamps s ! i - timestamps s ! (i - 1)) - 3333 / 100\<bar> \<le> 1)"
proof -
  define b where "b = rat_of_int (bootstrapTime file)"
  obtain n where n: "0 < n"
    "timestamps s = map (\<lambda>k. Math_round (nominal b k)) [0..<n]"
    "\<And>k. k < n \<Longrightarrow> nominal b k + 33329 / 1000 \<le> nominal b (Suc k)
                   \<and> nominal b (Suc k) \<le> nominal b k + 33331 / 1000 \<and> 0 \<le> nominal b k"
    using loadFile_timeline[OF assms, folded b_def] by metis
  have ne: "timestamps s \<noteq> []" using n(1,2) by simp
  have first: "timestamps s ! 0 = bootstrapTime file"
    using n(1,2) by (simp add: b_def)
  have step: "timestamps s ! (i - 1) \<le> timestamps s ! i
           \<and> \<bar>rat_of_int (timestamps s ! i - timestamps s ! (i - 1)) - 3333 / 100\<bar> \<le> 1"
    if "1 \<le> i" "i < length (timestamps s)" for i
  proof -
    have i: "i - 1 < n" "i < n" "Suc (i - 1) = i" using that n(2) by simp_all
    have "Math_round (nominal b i) - Math_round (nominal b (i - 1)) = 33
        \<or> Math_round (nominal b i) - Math_round (nominal b (i - 1)) = 34"
      using Math_round_step[of "nominal b (i - 1)" "nominal b i"] n(3)[OF i(1)] i(3) by simp
    moreover have "timestamps s ! i = Math_round (nominal b i)"
      "timestamps s ! (i - 1) = Math_round (nominal b (i - 1))"
      using i n(2) by simp_all
    ultimately show ?thesis by auto
  qed
  show ?thesis using ne first step by blast
qed

text \<open>
  Claim C8.  When the source opens and can be scanned, has target topics and messages on
  them, but some target topic never appears among the messages, the load still succeeds:
  it completes, the console holds the warning for the incomplete bag, and the bootstrap
  time and the first frame timestamp are the timestamp of the first message of the sorted
  list, the least timestamp of all.
\<close>

theorem degraded_bootstrap_loads:
  assumes "cv s \<or> cv_loads" "opens file" "readable file"
    "targetTopics (classified file) \<noteq> []" "fileMessages file \<noteq> []" "ros_times file"
    "\<not> set (targetTopics (classified file)) \<subseteq> topic ` set (fileMessages file)"
  shows "\<exists>s'. loadFile cv_loads file s = Some (Inr (), [ConsoleWarn INCOMPLETE_BAG], s')
            \<and> timestamps s' \<noteq> []
            \<and> timestamps s' ! 0 = timestamp (fileMessages file ! 0)
            \<and> bootstrapTime file = timestamp (fileMessages file ! 0)
            \<and> (\<forall>m \<in> set (fileMessages file). timestamp (fileMessages file ! 0) \<le> timestamp m)"
proof -
  note D = bootstrapping_degraded[OF assms(7)]
  obtain s' where l: "loadFile cv_loads file s = Some (Inr (), [ConsoleWarn INCOMPLETE_BAG], s')"
    using loadFile_succeeds[OF assms(1-6)] unfolding D(2) by blast
  have b: "bootstrapTime file = timestamp (fileMessages file ! 0)"
    using D(1) by (simp add: bootstrapTime_def)
  have f: "timestamps s' \<noteq> []" "timestamps s' ! 0 = timestamp (fileMessages file ! 0)"
    using loadFile_first_frame[OF l assms(6)] b by simp_all
  have m: "\<forall>m \<in> set (fileMessages file). timestamp (fileMessages file ! 0) \<le> timestamp m"
  proof (cases "fileMessages file")
    case Nil
    then show ?thesis by simp
  next
    case (Cons x xs)
    have "sorted (map timestamp (x # xs))"
      using sorted_fileMessages[of "file"] by (simp only: Cons)
    then have "\<forall>y \<in> set xs. timestamp x \<le> timestamp y" by simp
    then show ?thesis by (simp add: Cons)
  qed
  have "loadFile cv_loads file s = Some (Inr (), [ConsoleWarn INCOMPLETE_BAG], s')
            \<and> timestamps s' \<noteq> []
            \<and> timestamps s' ! 0 = timestamp (fileMessages file ! 0)
            \<and> bootstrapTime file = timestamp (fileMessages file ! 0)
            \<and> (\<forall>m \<in> set (fileMessages file). timestamp (fileMessages file ! 0) \<le> timestamp m)"
    using l f b m by (intro conjI)
  then show ?thesis by (rule exI)
qed

lemma drift_fields:
  "opens drift_bag" "readable drift_bag"
  "messages drift_bag =
       [at_sec 1700000000 (state_at 0 [0, 0, 0]), at_sec 1700000000 (cam_at 0 [1]),
        at_sec 1700000003 (state_at 333000000 [1, 1, 1])]"
  by (simp_all add: drift_bag_def scenario_bag_def)

lemma drift_classified:
  "jointTopics (classified drift_bag) = [''/state'']"
  "imageTopics (classified drift_bag) = [''/cam'']"
  "targetTopics (classified drift_bag) = [''/cam'', ''/state'']"
  using scenario_classified
  by (simp_all add: classified_def drift_bag_def)

lemma drift_messages:
  "fileMessages drift_bag =
     [light 1700000000000 (at_sec 1700000000 (state_at 0 [0, 0, 0])) True,
      light 1700000000000 (at_sec 1700000000 (cam_at 0 [1])) False,
      light 1700000003333 (at_sec 1700000003 (state_at 333000000 [1, 1, 1])) True]"
  by (simp add: fileMessages_def extractMessages_def drift_classified toLight_def timeToMs_nat
      drift_fields state_at_def cam_at_def light_def at_sec_def)

lemma drift_boot:
  "bootstrapTime drift_bag = 1700000000000"
  "lastMessageTime drift_bag = 1700000003333"
  "fst (snd (bootstrapping (classified drift_bag) (fileMessages drift_bag))) = []"
  by (simp_all add: bootstrapTime_def lastMessageTime_def bootstrapScan_def bootstrapping_def
      drift_messages drift_classified bootstrap.simps Let_def light_def updateCurrent_def
      state_at_def cam_at_def at_sec_def)

lemma drift_ros: "ros_times drift_bag"
  by (simp add: ros_times_def drift_fields state_at_def cam_at_def at_sec_def)

lemma drift_load:
  "loadFile True drift_bag new_BagService = Some (Inr (), [], drift_loaded)"
proof -
  have "targetTopics (classified drift_bag) \<noteq> []" "fileMessages drift_bag \<noteq> []"
    by (simp_all add: drift_classified drift_messages)
  from loadFile_succeeds[OF _ drift_fields(1,2) this drift_ros, of new_BagService True]
  obtain s' where "loadFile True drift_bag new_BagService = Some (Inr (), [], s')"
    unfolding drift_boot(3) by auto
  then show ?thesis
    by (simp add: drift_loaded_def state_of_def)
qed

lemma round_even_up:
  assumes "1 / 2 < q - rat_of_int \<lfloor>q\<rfloor>"
  shows "round_even (rat_of_int m + q) = m + \<lfloor>q\<rfloor> + 1"
proof -
  have "\<lfloor>rat_of_int m + q\<rfloor> = m + \<lfloor>q\<rfloor>" by simp
  then show ?thesis
    using assms by (simp add: round_even_def Let_def)
qed

text \<open>
  Between \<open>2 ^ 40\<close> and \<open>2 ^ 41\<close> milliseconds a double is a multiple of \<open>2 ^ -12\<close>, and
  adding 33.33 to one adds 136520 / 4096 = 33.330078125.
\<close>

lemma js_add_epoch:
  assumes "t = rat_of_int m / 4096" "2 ^ 40 \<le> t" "t + 34 < 2 ^ 41"
  shows "js_add t FRAME_STEP = t + 17065 / 512"
proof -
  define x where "x = t + FRAME_STEP"
  have c: "33 \<le> FRAME_STEP" "FRAME_STEP \<le> 34" by (simp_all add: FRAME_STEP_def)
  have "2 ^ 40 \<le> x" "x < 2 ^ 41" using assms(2,3) c by (simp_all add: x_def)
  then have fl: "2 ^ (41 - 1) \<le> \<lfloor>x\<rfloor>" "\<lfloor>x\<rfloor> < 2 ^ 41"
    by (simp_all add: le_floor_iff floor_less_iff)
  have p: "pow2 (- 12) = 1 / 4096" by (simp add: pow2_def)
  have "x / (1 / 4096) = rat_of_int m + 2345390243441541 / 17179869184"
    by (simp add: x_def assms(1) FRAME_STEP_def)
  moreover have "round_even (rat_of_int m + 2345390243441541 / 17179869184) = m + 136519 + 1"
    using round_even_up[of "2345390243441541 / 17179869184" m]
    by (simp add: floor_rat_numeral)
  ultimately have "double_round x = rat_of_int (m + 136520) / 4096"
    using double_round_binade[OF fl] by (simp add: p del: divide_divide_eq_right)
  then show ?thesis
    by (simp add: js_add_def x_def assms(1) field_simps)
qed

lemma nominal_epoch:
  assumes "k \<le> 101"
  shows "nominal 1700000000000 k = 1700000000000 + rat_of_nat k * (17065 / 512)"
  using assms
proof (induction k)
  case 0
  then show ?case by simp
next
  case (Suc k)
  define t where "t = 1700000000000 + rat_of_nat k * (17065 / 512)"
  have k: "rat_of_nat k \<le> 100" using Suc.prems by simp
  have "t = rat_of_int (6963200000000000 + int k * 136520) / 4096"
    by (simp add: t_def field_simps)
  moreover have "2 ^ 40 \<le> t" by (simp add: t_def)
  moreover have "t + 34 < 2 ^ 41" using k by (simp add: t_def)
  ultimately have "js_add t FRAME_STEP = t + 17065 / 512"
    by (rule js_add_epoch)
  moreover have "nominal 1700000000000 (Suc k) = js_add t FRAME_STEP"
    using Suc by (simp add: nominal_Suc t_def)
  moreover have "t + 17065 / 512 = 1700000000000 + rat_of_nat (Suc k) * (17065 / 512)"
    unfolding t_def of_nat_Suc by (simp only: distrib_right mult_1 add.assoc)
  ultimately show ?case by simp
qed

text \<open>
  Claim C2 as stated fails: with the bootstrap at 1700000000000 ms and the last message
  3333 ms later, the loop makes 100 frames, where \<open>\<lfloor>3333 / 33.33\<rfloor> + 1\<close> is 101: the
  hundredth sum is 3333.0078125 ms past the bootstrap, beyond the last message.
\<close>

theorem frame_count_formula_counterexample:
  "loadFile True drift_bag new_BagService = Some (Inr (), [], drift_loaded)
   \<and> length (timestamps drift_loaded) = 100
   \<and> \<lfloor>rat_of_int (lastMessageTime drift_bag - bootstrapTime drift_bag) / (3333 / 100)\<rfloor> + 1 = 101"
proof -
  have le: "\<forall>k<100. nominal (rat_of_int (bootstrapTime drift_bag)) k
              \<le> rat_of_int (lastMessageTime drift_bag)"
  proof (intro allI impI)
    fix k :: nat assume "k < 100"
    then have "rat_of_nat k \<le> 99" by simp
    then have "rat_of_nat k * (17065 / 512) \<le> 3333" by simp
    then show "nominal (rat_of_int (bootstrapTime drift_bag)) k \<le> rat_of_int (lastMessageTime drift_bag)"
      using nominal_epoch[of k] \<open>k < 100\<close> by (simp add: drift_boot)
  qed
  have gt: "rat_of_int (lastMessageTime drift_bag) < nominal (rat_of_int (bootstrapTime drift_bag)) 100"
    using nominal_epoch[of 100] by (simp add: drift_boot)
  have "length (timestamps drift_loaded) = 100"
    unfolding loadFile_frames_n(1)[OF drift_load le gt] by simp
  moreover have "\<lfloor>rat_of_int (lastMessageTime drift_bag - bootstrapTime drift_bag) / (3333 / 100)\<rfloor> + 1 = 101"
    by (simp add: drift_boot)
  ultimately show ?thesis using drift_load by simp
qed



















text \<open>
  Claim C2, amended.  For a successfully loaded bag whose message times are ROS times, the
  number \<open>n\<close> of frames is the number of nominal times (the bootstrap time and the sums
  obtained from it by adding 33.33 in double precision) that do not exceed the last
  message time, and it lies between \<open>\<lfloor>D / 33.331\<rfloor> + 1\<close> and \<open>\<lfloor>D / 33.329\<rfloor> + 1\<close>, where
  \<open>D\<close> is the last message time minus the bootstrap time.
\<close>

theorem frame_count_bounds:
  assumes "loadFile cv_loads file s_prev = Some (Inr (), console, s)" "ros_times file"
  shows "0 < length (timestamps s)
       \<and> (\<forall>k<length (timestamps s).
             nominal (rat_of_int (bootstrapTime file)) k \<le> rat_of_int (lastMessageTime file))
       \<and> rat_of_int (lastMessageTime file)
            < nominal (rat_of_int (bootstrapTime file)) (length (timestamps s))
       \<and> \<lfloor>rat_of_int (lastMessageTime file - bootstrapTime file) / (33331 / 1000)\<rfloor> + 1
            \<le> int (length (timestamps s))
       \<and> int (length (timestamps s))
            \<le> \<lfloor>rat_of_int (lastMessageTime file - bootstrapTime file) / (33329 / 1000)\<rfloor> + 1"
proof -
  define b where "b = rat_of_int (bootstrapTime file)"
  define e where "e = rat_of_int (lastMessageTime file)"
  obtain n where n: "0 < n" "\<forall>k<n. nominal b k \<le> e" "e < nominal b n"
    "timestamps s = map (\<lambda>k. Math_round (nominal b k)) [0..<n]"
    "\<And>k. k \<le> n \<Longrightarrow> b + rat_of_nat k * (33329 / 1000) \<le> nominal b k
                   \<and> nominal b k \<le> b + rat_of_nat k * (33331 / 1000)"
    using loadFile_timeline[OF assms, folded b_def e_def] by metis
  have len: "length (timestamps s) = n" using n(4) by simp
  have D: "rat_of_int (lastMessageTime file - bootstrapTime file) = e - b"
    by (simp add: e_def b_def)
  have "b + rat_of_nat (n - 1) * (33329 / 1000) \<le> e"
    using n(5)[of "n - 1"] n(2) n(1) by (smt (verit) diff_less less_numeral_extra(1) diff_le_self order_trans)
  then have "rat_of_nat (n - 1) \<le> (e - b) / (33329 / 1000)"
    by (simp add: field_simps)
  then have "rat_of_int (int n - 1) \<le> (e - b) / (33329 / 1000)"
    using n(1) by (simp add: of_nat_diff)
  then have "int n - 1 \<le> \<lfloor>(e - b) / (33329 / 1000)\<rfloor>"
    by (simp only: le_floor_iff)
  then have up: "int n \<le> \<lfloor>(e - b) / (33329 / 1000)\<rfloor> + 1"
    by linarith
  have "e < b + rat_of_nat n * (33331 / 1000)"
    using n(5)[of n] n(3) by simp
  then have "(e - b) / (33331 / 1000) < rat_of_int (int n)"
    by (simp add: field_simps)
  then have "\<lfloor>(e - b) / (33331 / 1000)\<rfloor> < int n"
    by (simp only: floor_less_iff)
  then have lo: "\<lfloor>(e - b) / (33331 / 1000)\<rfloor> + 1 \<le> int n" by simp
  show ?thesis
    unfolding len D using n(1,2,3) up lo by (simp add: b_def e_def)
qed

theorem frame_count_bounds_witness:
  "loadFile True drift_bag new_BagService = Some (Inr (), [], drift_loaded)
   \<and> ros_times drift_bag
   \<and> \<lfloor>rat_of_int (lastMessageTime drift_bag - bootstrapTime drift_bag) / (33331 / 1000)\<rfloor> + 1 = 100
   \<and> \<lfloor>rat_of_int (lastMessageTime drift_bag - bootstrapTime drift_bag) / (33329 / 1000)\<rfloor> + 1 = 101
   \<and> 100 \<le> int (length (timestamps drift_loaded))
   \<and> int (length (timestamps drift_loaded)) \<le> 101
   \<and> rat_of_int (lastMessageTime drift_bag)
        < nominal (rat_of_int (bootstrapTime drift_bag)) (length (timestamps drift_loaded))"
  using frame_count_bounds[OF drift_load drift_ros] drift_load drift_ros
  by (simp add: drift_boot floor_rat_numeral)

lemma degraded_fields:
  "opens degraded_bag" "readable degraded_bag"
  "messages degraded_bag = [cam_at 0 [1], cam_at 40000000 [2]]"
  by (simp_all add: degraded_bag_def scenario_bag_def)

lemma degraded_classified:
  "jointTopics (classified degraded_bag) = [''/state'']"
  "imageTopics (classified degraded_bag) = [''/cam'']"
  "targetTopics (classified degraded_bag) = [''/cam'', ''/state'']"
  using scenario_classified
  by (simp_all add: classified_def degraded_bag_def)

lemma degraded_messages:
  "fileMessages degraded_bag =
     [light 0 (cam_at 0 [1]) False, light 40 (cam_at 40000000 [2]) False]"
  by (simp add: fileMessages_def extractMessages_def degraded_classified toLight_def timeToMs_nat
      degraded_fields cam_at_def light_def)

lemma degraded_ros: "ros_times degraded_bag"
  by (simp add: ros_times_def degraded_fields cam_at_def)

theorem frame_timestamps_spacing_witness:
  "loadFile True scenario_bag new_BagService = Some (Inr (), [], scenario_loaded)
   \<and> ros_times scenario_bag
   \<and> timestamps scenario_loaded = [0, 33, 67]
   \<and> bootstrapTime scenario_bag = 0
   \<and> (1::nat) \<le> 2 \<and> 2 < length (timestamps scenario_loaded)
   \<and> timestamps scenario_loaded ! (2 - 1) \<le> timestamps scenario_loaded ! 2
   \<and> \<bar>rat_of_int (timestamps scenario_loaded ! 2 - timestamps scenario_loaded ! (2 - 1))
         - 3333 / 100\<bar> \<le> 1"
  using frame_timestamps_spacing[OF scenario_load scenario_ros] scenario_load scenario_ros
  by (simp add: scenario_timestamps scenario_boot)

theorem degraded_bootstrap_loads_witness:
  "(cv new_BagService \<or> True) \<and> opens degraded_bag \<and> readable degraded_bag
   \<and> targetTopics (classified degraded_bag) = [''/cam'', ''/state'']
   \<and> topic ` set (fileMessages degraded_bag) = {''/cam''}
   \<and> ros_times degraded_bag
   \<and> (\<exists>s'. loadFile True degraded_bag new_BagService
               = Some (Inr (), [ConsoleWarn INCOMPLETE_BAG], s')
           \<and> timestamps s' \<noteq> [] \<and> timestamps s' ! 0 = 0)
   \<and> bootstrapTime degraded_bag = 0"
proof -
  have t: "topic ` set (fileMessages degraded_bag) = {''/cam''}"
    by (simp add: degraded_messages light_def cam_at_def)
  have h: "targetTopics (classified degraded_bag) \<noteq> []" "fileMessages degraded_bag \<noteq> []"
    "\<not> set (targetTopics (classified degraded_bag)) \<subseteq> topic ` set (fileMessages degraded_bag)"
    unfolding t by (simp_all add: degraded_classified degraded_messages)
  have f: "timestamp (fileMessages degraded_bag ! 0) = 0"
    by (simp add: degraded_messages light_def)
  show ?thesis
    using degraded_bootstrap_loads[OF _ degraded_fields(1,2) h(1,2) degraded_ros h(3),
        of new_BagService True]
      degraded_fields(1,2) degraded_ros t
    by (simp add: f degraded_classified) blast
qed

end
